theory Spec2Isabelle
  imports Main "HOL-Library.Word" "HOL-Library.Multiset" "HOL-Library.Sublist"
begin

section \<open>Values, identities and failures\<close>

text \<open>
  A \<^verbatim>\<open>float32\<close> is kept as its 32-bit pattern: the driver only copies positions,
  it never computes with them.  Game objects, \<^verbatim>\<open>Transform2D\<close> cells, pool labels, update
  systems and keys are known by their identity (the pointer, the map key).
\<close>

type_synonym float32 = "32 word"
type_synonym obj = nat
type_synonym ref = nat
type_synonym label = nat
type_synonym sys = nat
type_synonym key = nat

text \<open>
  A Go panic is the value \<open>Panic msg\<close>; a channel send that cannot proceed is
  \<open>WouldBlock\<close>.  A panic is fatal for the process, so no state is kept after it.
\<close>

datatype error = Panic string | WouldBlock

section \<open>Transform2D (package component)\<close>

record Transform2D =
  prevX :: float32
  prevY :: float32
  X :: float32
  Y :: float32

definition NewTransform2D :: Transform2D where
  "NewTransform2D = \<lparr>prevX = 0, prevY = 0, X = 0, Y = 0\<rparr>"

definition NameTransform2D :: string where
  "NameTransform2D = ''Transform2D''"

definition GetPrevX :: "Transform2D \<Rightarrow> float32" where
  "GetPrevX tf = prevX tf"

definition GetPrevY :: "Transform2D \<Rightarrow> float32" where
  "GetPrevY tf = prevY tf"

text \<open>\<^verbatim>\<open>tf.prevX = tf.X; tf.prevY = tf.Y\<close>, one assignment after the other.\<close>

definition MemXY :: "Transform2D \<Rightarrow> Transform2D" where
  "MemXY tf = (let tf1 = tf\<lparr>prevX := X tf\<rparr> in tf1\<lparr>prevY := Y tf1\<rparr>)"

section \<open>The state the physical tick works on\<close>

text \<open>
  A component held by a game object is an interface value: either a pointer to a
  \<^verbatim>\<open>Transform2D\<close> or a value of another dynamic type.  \<open>components w ob name\<close> is what
  \<^verbatim>\<open>GetComponent(name)\<close> finds, \<open>None\<close> being the nil interface.
\<close>

datatype component = Transform2DPtr ref | OtherComponent

text \<open>
  \<^verbatim>\<open>resourceAccessRequest\<close>: the object (a request always names one) and a pointer to
  its target-active flag (\<open>None\<close> is the nil pointer).
\<close>

record resourceAccessRequest =
  payload :: obj
  isActive :: "bool option"

datatype inputKind = KeyPress | KeyHold | KeyRelease

text \<open>
  A task handed to the executor runs on a worker, beside the physical thread.  What such
  tasks still have to write into \<^verbatim>\<open>Transform2D\<close> cells is kept as a list of stores, in
  the order the workers make them: \<open>StoreX r f\<close> reads the field \<^verbatim>\<open>X\<close> of cell \<open>r\<close> and
  writes \<open>f\<close> of it back (\<^verbatim>\<open>X += dx\<close>), \<open>StoreY\<close> likewise.
\<close>

datatype store = StoreX ref "float32 \<Rightarrow> float32" | StoreY ref "float32 \<Rightarrow> float32"

text \<open>
  \<open>world\<close> is everything user callbacks, systems and executor tasks reach through
  exported names: the \<^verbatim>\<open>Transform2D\<close> cells (shared by pointer), the objects' components
  and flags, the sprites' depth and frame, the systems' enabled flags, the two request
  channels (buffered, first in first out), the input buffer, what has been drawn, and
  the stores the executor's tasks have not made yet.  The pools and the system list are
  package-private to the core and stay outside.
\<close>

record world =
  tfs :: "ref \<Rightarrow> Transform2D"
  components :: "obj \<Rightarrow> string \<rightharpoonup> component"
  IsActive :: "obj \<Rightarrow> bool"
  spriteZ :: "obj \<Rightarrow> int"
  spriteFrame :: "obj \<Rightarrow> nat"
  sysEnabled :: "sys \<Rightarrow> bool"
  registerChannel :: "resourceAccessRequest list"
  unregisterChannel :: "resourceAccessRequest list"
  inputBuffer :: "inputKind \<Rightarrow> key set"
  screen :: "obj list"
  pending :: "store list"

definition applyStore :: "store \<Rightarrow> world \<Rightarrow> world" where
  "applyStore st w =
     (case st of
        StoreX r f \<Rightarrow> w\<lparr>tfs := (tfs w)(r := (tfs w r)\<lparr>X := f (X (tfs w r))\<rparr>)\<rparr>
      | StoreY r f \<Rightarrow> w\<lparr>tfs := (tfs w)(r := (tfs w r)\<lparr>Y := f (Y (tfs w r))\<rparr>)\<rparr>)"

text \<open>The workers make the next \<open>n\<close> stores (all that are left, if fewer).\<close>

definition workers :: "nat \<Rightarrow> world \<Rightarrow> world" where
  "workers n w = fold applyStore (take n (pending w)) (w\<lparr>pending := drop n (pending w)\<rparr>)"

text \<open>Every call the driver makes to a collaborator is recorded, in program order.\<close>

datatype event =
    EvAddObj obj bool
  | EvExecute sys
  | EvOnStep obj
  | EvDoFrameStep obj
  | EvFlushInputBuffer
  | EvRemoveObj obj bool
  | EvMemXY obj
  | EvOnRender obj

text \<open>
  \<open>activePool\<close> and \<open>inactivePool\<close> are \<^verbatim>\<open>map[label]objPool\<close>, an \<^verbatim>\<open>objPool\<close> being
  a Go map used as a set of objects.
\<close>

record engine =
  wld :: world
  activePool :: "label \<rightharpoonup> obj set"
  inactivePool :: "label \<rightharpoonup> obj set"
  systemPriorityList :: "sys list"
  renderSortList :: "obj list"
  trace :: "event list"

text \<open>
  The collaborators, taken as parameters.  Every object has its callbacks and a sprite;
  what they do is theirs, and they return.  The parameters: the callbacks of an object, the sprite's frame
  step, a system's \<^verbatim>\<open>Execute(executor)\<close> and the priority its \<^verbatim>\<open>SystemBase\<close> was built with,
  the label an object carries, and \<^verbatim>\<open>sort.Slice\<close> of the Go library.
\<close>

record env =
  OnStep :: "obj \<Rightarrow> world \<Rightarrow> world"
  OnRender :: "obj \<Rightarrow> world \<Rightarrow> world"
  DoFrameStep :: "obj \<Rightarrow> world \<Rightarrow> world"
  sysExecute :: "sys \<Rightarrow> world \<Rightarrow> world"
  sysPriority :: "sys \<Rightarrow> int"
  objLabel :: "obj \<Rightarrow> label"
  sortSlice :: "(obj \<Rightarrow> obj \<Rightarrow> bool) \<Rightarrow> obj list \<Rightarrow> obj list"

text \<open>
  Go leaves the order of a \<^verbatim>\<open>range\<close> over a map open, and it may differ from one loop
  to the next.  Each loop over the active pool therefore takes the order of its visits
  as an argument; \<open>rangeOf p vis\<close> says that \<open>vis\<close> is such an order for the pool \<open>p\<close>:
  every entry of every bucket once.  \<open>bucket p l\<close> is the bucket of label \<open>l\<close>, empty when
  the label has none.

  How far the workers get while the tick runs is open as well.  Systems and callbacks
  are functions of the whole world, the list of stores included, so what the workers do
  while one of them runs is part of that function.  Steps 1, 4 and 5 neither read nor
  write a position or that list, so a store made during them is as good as made after
  them.  That leaves step 6: \<open>storesBeforeMem\<close> is the number of stores the workers make
  before its loop starts, \<open>storesDuringMem\<close> the numbers they make after each call of
  \<^verbatim>\<open>MemXY\<close>, in the order of the visits (none where the list has run out).
\<close>

record sched =
  stepOrder :: "(label \<times> obj) list"
  memOrder :: "(label \<times> obj) list"
  storesBeforeMem :: nat
  storesDuringMem :: "nat list"

definition bucket :: "(label \<rightharpoonup> obj set) \<Rightarrow> label \<Rightarrow> obj set" where
  "bucket p l = (case p l of None \<Rightarrow> {} | Some b \<Rightarrow> b)"

definition poolEntries :: "(label \<rightharpoonup> obj set) \<Rightarrow> (label \<times> obj) set" where
  "poolEntries p = {(l, ob). ob \<in> bucket p l}"

definition rangeOf :: "(label \<rightharpoonup> obj set) \<Rightarrow> (label \<times> obj) list \<Rightarrow> bool" where
  "rangeOf p vis \<longleftrightarrow> distinct vis \<and> set vis = poolEntries p"

definition activeObjs :: "engine \<Rightarrow> obj set" where
  "activeObjs s = snd ` poolEntries (activePool s)"

definition logEv :: "event \<Rightarrow> engine \<Rightarrow> engine" where
  "logEv e s = s\<lparr>trace := trace s @ [e]\<rparr>"

section \<open>The object pool\<close>

text \<open>
  Modelled from the spec: \<^verbatim>\<open>addObjDefault\<close> and \<^verbatim>\<open>removeObjDefault\<close> are not among the
  sources.  The spec: "inserts obj into the active or inactive bucket under its label,
  creating the label bucket lazily" and "removes obj from the correct bucket".
\<close>

definition addObjDefault :: "env \<Rightarrow> obj \<Rightarrow> bool \<Rightarrow> engine \<Rightarrow> engine" where
  "addObjDefault E ob act s =
     (let l = objLabel E ob in
      if act then s\<lparr>activePool := (activePool s)(l \<mapsto> insert ob (bucket (activePool s) l))\<rparr>
      else s\<lparr>inactivePool := (inactivePool s)(l \<mapsto> insert ob (bucket (inactivePool s) l))\<rparr>)"

definition removeFrom :: "(label \<rightharpoonup> obj set) \<Rightarrow> label \<Rightarrow> obj \<Rightarrow> (label \<rightharpoonup> obj set)" where
  "removeFrom p l ob = (case p l of None \<Rightarrow> p | Some b \<Rightarrow> p(l \<mapsto> b - {ob}))"

definition removeObjDefault :: "env \<Rightarrow> obj \<Rightarrow> bool \<Rightarrow> engine \<Rightarrow> engine" where
  "removeObjDefault E ob act s =
     (let l = objLabel E ob in
      if act then s\<lparr>activePool := removeFrom (activePool s) l ob\<rparr>
      else s\<lparr>inactivePool := removeFrom (inactivePool s) l ob\<rparr>)"

text \<open>
  Modelled from the spec: \<^verbatim>\<open>FlushInputBuffer\<close> is not among the sources.  The spec:
  "transitions pressed/released event sets back to empty".
\<close>

definition FlushInputBuffer :: "world \<Rightarrow> world" where
  "FlushInputBuffer w = w\<lparr>inputBuffer := (inputBuffer w)(KeyPress := {}, KeyRelease := {})\<rparr>"

section \<open>doPhysicalUpdate\<close>

text \<open>
  Step 1, \<^verbatim>\<open>for len(g.registerChannel) > 0 { req := <-g.registerChannel; ... }\<close>: the
  requests queued are taken in order until the channel is empty.  \<^verbatim>\<open>*req.isActive\<close>
  panics on a nil pointer.
\<close>

fun drainRegisterLoop :: "env \<Rightarrow> resourceAccessRequest list \<Rightarrow> engine \<Rightarrow> error + engine" where
  "drainRegisterLoop E [] s = Inr s"
| "drainRegisterLoop E (req # rest) s =
     (case isActive req of
        None \<Rightarrow> Inl (Panic ''invalid memory address or nil pointer dereference'')
      | Some act \<Rightarrow>
          drainRegisterLoop E rest
            (addObjDefault E (payload req) act (logEv (EvAddObj (payload req) act) s)))"

definition drainRegister :: "env \<Rightarrow> engine \<Rightarrow> error + engine" where
  "drainRegister E s =
     drainRegisterLoop E (registerChannel (wld s)) (s\<lparr>wld := (wld s)\<lparr>registerChannel := []\<rparr>\<rparr>)"

text \<open>Step 2: the systems of \<^verbatim>\<open>systemPriorityList\<close> in list order, the enabled ones executed.\<close>

fun executeSystems :: "env \<Rightarrow> sys list \<Rightarrow> engine \<Rightarrow> engine" where
  "executeSystems E [] s = s"
| "executeSystems E (sy # rest) s =
     executeSystems E rest
       (if sysEnabled (wld s) sy
        then (logEv (EvExecute sy) s)\<lparr>wld := sysExecute E sy (wld s)\<rparr>
        else s)"

text \<open>Step 3: the step callback of each visited object, then its sprite's frame step.\<close>

definition userStep :: "env \<Rightarrow> obj \<Rightarrow> engine \<Rightarrow> engine" where
  "userStep E ob s =
     (let s1 = (logEv (EvOnStep ob) s)\<lparr>wld := OnStep E ob (wld s)\<rparr>
      in (logEv (EvDoFrameStep ob) s1)\<lparr>wld := DoFrameStep E ob (wld s1)\<rparr>)"

fun doUserSteps :: "env \<Rightarrow> (label \<times> obj) list \<Rightarrow> engine \<Rightarrow> engine" where
  "doUserSteps E [] s = s"
| "doUserSteps E ((l, ob) # rest) s = doUserSteps E rest (userStep E ob s)"

text \<open>Step 4.\<close>

definition flushInput :: "engine \<Rightarrow> engine" where
  "flushInput s = (logEv EvFlushInputBuffer s)\<lparr>wld := FlushInputBuffer (wld s)\<rparr>"

text \<open>
  Step 5: the unregister requests queued by now, each removed from the pool its object's
  \<^verbatim>\<open>IsActive\<close> flag names.
\<close>

fun drainUnregisterLoop :: "env \<Rightarrow> resourceAccessRequest list \<Rightarrow> engine \<Rightarrow> engine" where
  "drainUnregisterLoop E [] s = s"
| "drainUnregisterLoop E (req # rest) s =
     drainUnregisterLoop E rest
       (removeObjDefault E (payload req) (IsActive (wld s) (payload req))
          (logEv (EvRemoveObj (payload req) (IsActive (wld s) (payload req))) s))"

definition drainUnregister :: "env \<Rightarrow> engine \<Rightarrow> engine" where
  "drainUnregister E s =
     drainUnregisterLoop E (unregisterChannel (wld s)) (s\<lparr>wld := (wld s)\<lparr>unregisterChannel := []\<rparr>\<rparr>)"

text \<open>
  Step 6: \<^verbatim>\<open>GetComponent(NameTransform2D).(*component.Transform2D)\<close> is a type assertion
  without the comma-ok form: it panics on the nil interface and on any other dynamic
  type (\<open>interfaceConversion\<close> stands for the two messages of the runtime).  Then
  \<^verbatim>\<open>tf.MemXY()\<close> on the cell the pointer names.  After each visit the workers make the
  stores the schedule gives them.
\<close>

definition interfaceConversion :: error where
  "interfaceConversion = Panic ''interface conversion: interface is not *component.Transform2D''"

definition memOne :: "obj \<Rightarrow> engine \<Rightarrow> error + engine" where
  "memOne ob s =
     (case components (wld s) ob NameTransform2D of
        Some (Transform2DPtr r) \<Rightarrow>
          Inr ((logEv (EvMemXY ob) s)\<lparr>wld := (wld s)\<lparr>tfs := (tfs (wld s))(r := MemXY (tfs (wld s) r))\<rparr>\<rparr>)
      | _ \<Rightarrow> Inl interfaceConversion)"

definition workersRun :: "nat \<Rightarrow> engine \<Rightarrow> engine" where
  "workersRun n s = s\<lparr>wld := workers n (wld s)\<rparr>"

definition nextStores :: "nat list \<Rightarrow> nat" where
  "nextStores ns = (case ns of [] \<Rightarrow> 0 | n # rest \<Rightarrow> n)"

fun memorize :: "(label \<times> obj) list \<Rightarrow> nat list \<Rightarrow> engine \<Rightarrow> error + engine" where
  "memorize [] ns s = Inr s"
| "memorize ((l, ob) # rest) ns s =
     (case memOne ob s of
        Inl e \<Rightarrow> Inl e
      | Inr s1 \<Rightarrow> memorize rest (tl ns) (workersRun (nextStores ns) s1))"

text \<open>Steps 2 to 4 on the state left by step 1, steps 1 to 5, and the whole tick.\<close>

definition stepsTwoToFour :: "env \<Rightarrow> sched \<Rightarrow> engine \<Rightarrow> engine" where
  "stepsTwoToFour E sch s1 =
     flushInput (doUserSteps E (stepOrder sch) (executeSystems E (systemPriorityList s1) s1))"

definition beforeMemorize :: "env \<Rightarrow> sched \<Rightarrow> engine \<Rightarrow> error + engine" where
  "beforeMemorize E sch s =
     (case drainRegister E s of
        Inl e \<Rightarrow> Inl e
      | Inr s1 \<Rightarrow> Inr (drainUnregister E (stepsTwoToFour E sch s1)))"

definition doPhysicalUpdate :: "env \<Rightarrow> sched \<Rightarrow> engine \<Rightarrow> error + engine" where
  "doPhysicalUpdate E sch s =
     (case beforeMemorize E sch s of
        Inl e \<Rightarrow> Inl e
      | Inr s5 \<Rightarrow>
          memorize (memOrder sch) (storesDuringMem sch) (workersRun (storesBeforeMem sch) s5))"

section \<open>The system registry\<close>

text \<open>
  Modelled from the spec: the code that fills \<^verbatim>\<open>systemPriorityList\<close> is not among the
  sources.  The spec: "an ordered list of update systems (by priority)" and "a priority
  (defines execution order, lower first -- stable, deterministic)".  A system is put
  before the first listed system of greater priority, so behind those of equal priority.
\<close>

fun insertSystem :: "env \<Rightarrow> sys \<Rightarrow> sys list \<Rightarrow> sys list" where
  "insertSystem E sy [] = [sy]"
| "insertSystem E sy (x # xs) =
     (if sysPriority E sy < sysPriority E x then sy # x # xs else x # insertSystem E sy xs)"

definition RegisterSystem :: "env \<Rightarrow> sys \<Rightarrow> engine \<Rightarrow> engine" where
  "RegisterSystem E sy s = s\<lparr>systemPriorityList := insertSystem E sy (systemPriorityList s)\<rparr>"

text \<open>The list after the systems \<open>regs\<close> have been registered in this order, from none.\<close>

definition registryOf :: "env \<Rightarrow> sys list \<Rightarrow> sys list" where
  "registryOf E regs = foldl (\<lambda>l sy. insertSystem E sy l) [] regs"

section \<open>doRender\<close>

text \<open>
  The comparison handed to \<^verbatim>\<open>sort.Slice\<close>:
  \<^verbatim>\<open>renderSortList[i].Sprite.Z > renderSortList[j].Sprite.Z\<close>.
\<close>

definition zLess :: "world \<Rightarrow> obj \<Rightarrow> obj \<Rightarrow> bool" where
  "zLess w a b \<longleftrightarrow> spriteZ w a > spriteZ w b"

fun renderAll :: "env \<Rightarrow> obj list \<Rightarrow> engine \<Rightarrow> engine" where
  "renderAll E [] s = s"
| "renderAll E (ob # rest) s =
     renderAll E rest ((logEv (EvOnRender ob) s)\<lparr>wld := OnRender E ob (wld s)\<rparr>)"

text \<open>
  \<open>vis\<close> is the order in which the two nested \<^verbatim>\<open>range\<close> loops meet the pool's entries.
  The list is emptied, filled, sorted in place, and walked.
\<close>

definition doRender :: "env \<Rightarrow> (label \<times> obj) list \<Rightarrow> engine \<Rightarrow> engine" where
  "doRender E vis s =
     (let s1 = s\<lparr>renderSortList := []\<rparr>;
          s2 = s1\<lparr>renderSortList := renderSortList s1 @ map snd vis\<rparr>;
          s3 = s2\<lparr>renderSortList := sortSlice E (zLess (wld s2)) (renderSortList s2)\<rparr>
      in renderAll E (renderSortList s3) s3)"

text \<open>
  What \<^verbatim>\<open>sort.Slice\<close> promises for a list \<open>xs\<close> and a comparison \<open>lt\<close>: the result holds
  the same elements, and no element is \<open>lt\<close> one that stands before it.  Nothing is promised
  about the order of elements that compare equal.
\<close>

definition sortSliceOk :: "('a \<Rightarrow> 'a \<Rightarrow> bool) \<Rightarrow> 'a list \<Rightarrow> 'a list \<Rightarrow> bool" where
  "sortSliceOk lt xs ys \<longleftrightarrow> mset ys = mset xs \<and> sorted_wrt (\<lambda>a b. \<not> lt b a) ys"

section \<open>Physics2DSystem.Execute\<close>

text \<open>A \<^verbatim>\<open>PhysicalComponentWrapper\<close> is three pointers.\<close>

record PhysicalComponentWrapper =
  wRigidBody2D :: ref
  wTransform2D :: ref
  wPolygonCollider :: ref

text \<open>
  The function literal \<^verbatim>\<open>func() (interface{}, error) { s.execute(item); ... }\<close> refers to
  the variable \<^verbatim>\<open>item\<close>, not to its value: a task is known by the variable it captured,
  and reads it when it runs.
\<close>

type_synonym var = nat

datatype closure = PhysicsTask var

text \<open>
  Modelled from the spec: the executor (package \<^verbatim>\<open>infra/concurrency\<close>) is not among the
  sources.  The spec: "\<^verbatim>\<open>Run()\<close> starts N persistent worker loops", "\<^verbatim>\<open>AsyncExecute(task)\<close>
  enqueues a task", and the caller does not wait for it.
\<close>

record Executor =
  poolSize :: int
  workerLoops :: int
  tasks :: "closure list"

definition NewExecutor :: "int \<Rightarrow> Executor" where
  "NewExecutor n = \<lparr>poolSize = n, workerLoops = 0, tasks = []\<rparr>"

definition Run :: "Executor \<Rightarrow> Executor" where
  "Run ex = ex\<lparr>workerLoops := workerLoops ex + poolSize ex\<rparr>"

definition AsyncExecute :: "closure \<Rightarrow> Executor \<Rightarrow> Executor" where
  "AsyncExecute t ex = ex\<lparr>tasks := tasks ex @ [t]\<rparr>"

text \<open>
  The variable of a \<^verbatim>\<open>for ... range\<close> loop: one for the whole loop under the language
  versions before Go 1.22, a fresh one in each iteration from Go 1.22 on (the version is
  the one the module file names, which is not among the sources).
\<close>

datatype loopVar = PerLoop | PerIteration

text \<open>
  \<open>cells\<close> holds the captured variables, \<open>integrated\<close> the calls of \<^verbatim>\<open>s.execute\<close> made so
  far, each with the wrapper it was handed.
\<close>

record physState =
  executor :: Executor
  cells :: "var \<Rightarrow> PhysicalComponentWrapper"
  nextVar :: var
  integrated :: "PhysicalComponentWrapper list"

fun submitAll :: "loopVar \<Rightarrow> var \<Rightarrow> (obj \<times> PhysicalComponentWrapper) list \<Rightarrow> physState \<Rightarrow> physState" where
  "submitAll lv v [] st = st"
| "submitAll PerLoop v ((ob, item) # rest) st =
     submitAll PerLoop v rest
       (st\<lparr>cells := (cells st)(v := item),
           executor := AsyncExecute (PhysicsTask v) (executor st)\<rparr>)"
| "submitAll PerIteration v ((ob, item) # rest) st =
     submitAll PerIteration v rest
       (st\<lparr>cells := (cells st)(nextVar st := item),
           nextVar := Suc (nextVar st),
           executor := AsyncExecute (PhysicsTask (nextVar st)) (executor st)\<rparr>)"

text \<open>
  \<open>vis\<close> is the order in which \<^verbatim>\<open>range s.obj2data\<close> yields the entries of the map;
  \<open>rangeOfMap m vis\<close> says so.
\<close>

definition rangeOfMap :: "('k \<rightharpoonup> 'v) \<Rightarrow> ('k \<times> 'v) list \<Rightarrow> bool" where
  "rangeOfMap m vis \<longleftrightarrow> distinct (map fst vis) \<and> map_of vis = m"

definition Execute :: "loopVar \<Rightarrow> (obj \<times> PhysicalComponentWrapper) list \<Rightarrow> physState \<Rightarrow> physState" where
  "Execute lv vis st = submitAll lv (nextVar st) vis (st\<lparr>nextVar := Suc (nextVar st)\<rparr>)"

text \<open>A worker running a task: the body reads the captured variable and calls \<^verbatim>\<open>s.execute\<close>.\<close>

fun runTask :: "closure \<Rightarrow> physState \<Rightarrow> physState" where
  "runTask (PhysicsTask v) st = st\<lparr>integrated := integrated st @ [cells st v]\<rparr>"

definition runQueued :: "physState \<Rightarrow> physState" where
  "runQueued st = fold runTask (tasks (executor st)) (st\<lparr>executor := (executor st)\<lparr>tasks := []\<rparr>\<rparr>)"

text \<open>
  Seen from the tick.  \<^verbatim>\<open>s.execute(item)\<close> ends with \<^verbatim>\<open>Pos.X += dx\<close> and \<^verbatim>\<open>Pos.Y += dy\<close> on
  the item's \<^verbatim>\<open>Transform2D\<close>, each made unless a collider is in the way, and takes no lock.
  The physics file reaches the position as \<^verbatim>\<open>Pos.X\<close> and \<^verbatim>\<open>Pos.Y\<close>, the component file
  declares it as the fields \<^verbatim>\<open>X\<close> and \<^verbatim>\<open>Y\<close> that \<^verbatim>\<open>MemXY\<close> copies: both are taken to be
  the one current position of the component.
  \<open>taskStores mv item\<close> are the stores of a task that makes both, \<open>mv item\<close> giving the
  two moves (the speeds come out of the rigid body).  \<open>physicsExecute\<close> is
  \<^verbatim>\<open>Physics2DSystem.Execute\<close> as a system of the tick: it runs no task, and leaves to the
  workers, task by task in the order queued, the stores of the wrappers the tasks will
  be handed.
\<close>

definition idlePhys :: physState where
  "idlePhys =
     \<lparr>executor = NewExecutor 1,
      cells = (\<lambda>v. \<lparr>wRigidBody2D = 0, wTransform2D = 0, wPolygonCollider = 0\<rparr>),
      nextVar = 0,
      integrated = []\<rparr>"

definition taskStores ::
  "(PhysicalComponentWrapper \<Rightarrow> (float32 \<Rightarrow> float32) \<times> (float32 \<Rightarrow> float32))
     \<Rightarrow> PhysicalComponentWrapper \<Rightarrow> store list" where
  "taskStores mv item =
     [StoreX (wTransform2D item) (fst (mv item)), StoreY (wTransform2D item) (snd (mv item))]"

definition physicsExecute ::
  "loopVar \<Rightarrow> (obj \<times> PhysicalComponentWrapper) list
     \<Rightarrow> (PhysicalComponentWrapper \<Rightarrow> (float32 \<Rightarrow> float32) \<times> (float32 \<Rightarrow> float32))
     \<Rightarrow> world \<Rightarrow> world" where
  "physicsExecute lv vis mv w =
     w\<lparr>pending := pending w
          @ concat (map (taskStores mv) (integrated (runQueued (Execute lv vis idlePhys))))\<rparr>"

section \<open>The application's life cycle\<close>

type_synonym int32 = "32 word"
type_synonym float64 = "64 word"
type_synonym func = nat

datatype gameLoopStats = GameLoopStats_Created | GameLoopStats_Initialized | GameLoopStats_Running

text \<open>A channel of \<^verbatim>\<open>struct{}\<close>: how many values it buffers, its capacity, whether it is closed.\<close>

record chan =
  chanLen :: nat
  chanCap :: nat
  chanClosed :: bool

text \<open>\<^verbatim>\<open>AppConfig\<close>; a pointer or function field is \<open>None\<close> when nil.\<close>

record AppConfig =
  Resolution :: "(float64 \<times> float64) option"
  PhysicalFps :: int
  RenderFps :: int
  Parallelism :: int
  Title :: string
  RenderFunc :: "func option"
  InitFunc :: "func option"

text \<open>
  \<^verbatim>\<open>Application\<close>.  The two request channels are the fields \<open>registerChannel\<close> and
  \<open>unregisterChannel\<close> of \<open>world\<close>; the tickers are kept as their periods in nanoseconds,
  the wait group as its counter.
\<close>

record Application =
  initFunc :: "func option"
  status :: gameLoopStats
  parallelism :: int
  physicalFPS :: int
  renderFPS :: int
  renderTicker :: int
  physicalTicker :: int
  appExecutor :: Executor
  wg :: int
  sigKill :: chan
  running :: bool

text \<open>
  The constants \<^verbatim>\<open>Cas_CoreController\<close>, \<^verbatim>\<open>Cas_False\<close>, \<^verbatim>\<open>Cas_True\<close> and \<^verbatim>\<open>Label_Default\<close>
  are declared outside the sources; they are parameters.
\<close>

record coreConsts =
  Cas_CoreController :: nat
  Cas_False :: int32
  Cas_True :: int32
  Label_Default :: label

text \<open>The package-level variables of \<^verbatim>\<open>core\<close> that construction and initialisation write.\<close>

record process =
  casList :: "int32 list"
  mutexList :: nat
  app :: "Application option"
  screenResolution :: "(float64 \<times> float64) option"
  procActivePool :: "label \<rightharpoonup> obj set"
  procInactivePool :: "label \<rightharpoonup> obj set"
  procInputBuffer :: "inputKind \<Rightarrow> key set"

definition objPoolInit :: "coreConsts \<Rightarrow> (label \<rightharpoonup> obj set)" where
  "objPoolInit K = Map.empty(Label_Default K \<mapsto> {})"

text \<open>
  \<^verbatim>\<open>GlobalInitializer\<close>: both pools get an empty default bucket, \<^verbatim>\<open>mutexList\<close> eight locks,
  \<^verbatim>\<open>casList\<close> eight flags, each set to \<^verbatim>\<open>Cas_False\<close> (the loop runs over the indices of
  \<^verbatim>\<open>mutexList\<close>, which has the same length), and the input buffer three empty sets.
\<close>

definition GlobalInitializer :: "coreConsts \<Rightarrow> process \<Rightarrow> process" where
  "GlobalInitializer K p =
     p\<lparr>procActivePool := objPoolInit K,
       procInactivePool := objPoolInit K,
       mutexList := 8,
       casList := map (\<lambda>idx. Cas_False K) [0 ..< 8],
       procInputBuffer := (\<lambda>k. {})\<rparr>"

text \<open>Go's integer division truncates towards zero.\<close>

definition goQuot :: "int \<Rightarrow> int \<Rightarrow> int" where
  "goQuot a b = sgn a * sgn b * (\<bar>a\<bar> div \<bar>b\<bar>)"

definition Second :: int where
  "Second = 1000000000"

text \<open>
  \<^verbatim>\<open>time.NewTicker(time.Second / time.Duration(fps))\<close>: the division panics on zero, and
  \<^verbatim>\<open>NewTicker\<close> panics on an interval that is not positive.
\<close>

definition newTickerFor :: "int \<Rightarrow> error + int" where
  "newTickerFor fps =
     (if fps = 0 then Inl (Panic ''runtime error: integer divide by zero'')
      else if goQuot Second fps \<le> 0 then Inl (Panic ''non-positive interval for NewTicker'')
      else Inr (goQuot Second fps))"

definition newChan :: "nat \<Rightarrow> chan" where
  "newChan n = \<lparr>chanLen = 0, chanCap = n, chanClosed = False\<rparr>"

text \<open>
  \<^verbatim>\<open>NewApplication\<close>.  The compare-and-swap on \<^verbatim>\<open>casList[Cas_CoreController]\<close> comes
  first; everything after it runs with the flag already set.
\<close>

definition NewApplication :: "coreConsts \<Rightarrow> AppConfig option \<Rightarrow> process \<Rightarrow> error + (Application \<times> process)" where
  "NewApplication K cfg p =
     (if \<not> Cas_CoreController K < length (casList p)
      then Inl (Panic ''runtime error: index out of range'')
      else if casList p ! Cas_CoreController K \<noteq> Cas_False K
      then Inl (Panic ''cannot have two masterGameLoopController in a standalone process'')
      else
        let p1 = p\<lparr>casList := (casList p)[Cas_CoreController K := Cas_True K]\<rparr> in
        case cfg of
          None \<Rightarrow> Inl (Panic ''invalid memory address or nil pointer dereference'')
        | Some c \<Rightarrow>
            let par = (if Parallelism c < 1 then 1 else Parallelism c) in
            (case newTickerFor (RenderFps c) of
               Inl e \<Rightarrow> Inl e
             | Inr rt \<Rightarrow>
                 (case newTickerFor (PhysicalFps c) of
                    Inl e \<Rightarrow> Inl e
                  | Inr pt \<Rightarrow>
                      let a = \<lparr>initFunc = InitFunc c,
                               status = GameLoopStats_Initialized,
                               parallelism = par,
                               physicalFPS = PhysicalFps c,
                               renderFPS = RenderFps c,
                               renderTicker = rt,
                               physicalTicker = pt,
                               appExecutor = NewExecutor par,
                               wg = 0,
                               sigKill = newChan 1,
                               running = False\<rparr>;
                          p2 = p1\<lparr>app := Some a\<rparr>
                      in (case Resolution c of
                            None \<Rightarrow> Inl (Panic ''invalid memory address or nil pointer dereference'')
                          | Some r \<Rightarrow> Inr (a, p2\<lparr>screenResolution := Some r\<rparr>)))))"

text \<open>What \<^verbatim>\<open>Start\<close>, \<^verbatim>\<open>Kill\<close> and \<^verbatim>\<open>workLoopExit\<close> call, in program order.\<close>

datatype lifeEvent =
    EvInitOpenGL
  | EvInitFunc func
  | EvExecutorRun
  | EvGoRunWorkerLoop
  | EvWgAdd
  | EvRenderLoop
  | EvWgDone
  | EvPrintln string
  | EvSend
  | EvClose

record life =
  theApp :: Application
  calls :: "lifeEvent list"

definition call :: "lifeEvent \<Rightarrow> life \<Rightarrow> life" where
  "call e st = st\<lparr>calls := calls st @ [e]\<rparr>"

definition executorRun :: "life \<Rightarrow> life" where
  "executorRun st = (call EvExecutorRun st)\<lparr>theApp := (theApp st)\<lparr>appExecutor := Run (appExecutor (theApp st))\<rparr>\<rparr>"

text \<open>\<^verbatim>\<open>wg.Done()\<close> panics when the counter would go below zero.\<close>

definition wgDone :: "life \<Rightarrow> error + life" where
  "wgDone st =
     (if wg (theApp st) - 1 < 0 then Inl (Panic ''sync: negative WaitGroup counter'')
      else Inr ((call EvWgDone st)\<lparr>theApp := (theApp st)\<lparr>wg := wg (theApp st) - 1\<rparr>\<rparr>))"

text \<open>
  \<^verbatim>\<open>Start\<close>, in three parts.  First: the window, \<^verbatim>\<open>initFunc\<close> (calling a nil function
  panics), \<^verbatim>\<open>executor.Run()\<close>, and the \<^verbatim>\<open>go\<close> statement.
\<close>

definition startBoot :: "life \<Rightarrow> error + life" where
  "startBoot st =
     (case initFunc (theApp st) of
        None \<Rightarrow> Inl (Panic ''invalid memory address or nil pointer dereference'')
      | Some f \<Rightarrow> Inr (call EvGoRunWorkerLoop (executorRun (call (EvInitFunc f) (call EvInitOpenGL st)))))"

text \<open>Second: \<^verbatim>\<open>app.running = true; app.status = GameLoopStats_Running\<close>.\<close>

definition startMark :: "life \<Rightarrow> life" where
  "startMark st = st\<lparr>theApp := (theApp st)\<lparr>running := True, status := GameLoopStats_Running\<rparr>\<rparr>"

text \<open>
  Third: \<^verbatim>\<open>executor.Run()\<close> again, then the render loop between \<^verbatim>\<open>wg.Add(1)\<close> and
  \<^verbatim>\<open>wg.Done()\<close>.  The render loop is a collaborator; only the call is recorded.
\<close>

definition startRender :: "life \<Rightarrow> error + life" where
  "startRender st =
     (let st1 = executorRun st;
          st2 = (call EvWgAdd st1)\<lparr>theApp := (theApp st1)\<lparr>wg := wg (theApp st1) + 1\<rparr>\<rparr>
      in wgDone (call EvRenderLoop st2))"

definition Start :: "life \<Rightarrow> error + life" where
  "Start st =
     (if status (theApp st) = GameLoopStats_Running
      then Inl (Panic ''cannot run a controller twice'')
      else case startBoot st of
             Inl e \<Rightarrow> Inl e
           | Inr st1 \<Rightarrow> startRender (startMark st1))"

text \<open>
  \<^verbatim>\<open>Kill\<close>: the send panics on a closed channel, and cannot proceed on a full one
  (no receiver is part of this function).
\<close>

definition Kill :: "life \<Rightarrow> error + life" where
  "Kill st =
     (let st1 = call (EvPrintln ''kill'') st; c = sigKill (theApp st1) in
      if chanClosed c then Inl (Panic ''send on closed channel'')
      else if chanCap c \<le> chanLen c then Inl WouldBlock
      else Inr ((call EvSend st1)\<lparr>theApp := (theApp st1)\<lparr>sigKill := c\<lparr>chanLen := Suc (chanLen c)\<rparr>,
                                                          running := False\<rparr>\<rparr>))"

text \<open>\<^verbatim>\<open>workLoopExit\<close>: closing a closed channel panics.\<close>

definition workLoopExit :: "life \<Rightarrow> error + life" where
  "workLoopExit st =
     (let c = sigKill (theApp st) in
      if chanClosed c then Inl (Panic ''close of closed channel'')
      else wgDone (call (EvPrintln ''sub: wg --'')
                     ((call EvClose st)\<lparr>theApp := (theApp st)\<lparr>sigKill := c\<lparr>chanClosed := True\<rparr>\<rparr>\<rparr>)))"

section \<open>Vocabulary for the properties\<close>

text \<open>The systems that step 2 executes, started in the world \<open>w\<close>.\<close>

fun executedSystems :: "env \<Rightarrow> sys list \<Rightarrow> world \<Rightarrow> sys list" where
  "executedSystems E [] w = []"
| "executedSystems E (sy # rest) w =
     (if sysEnabled w sy then sy # executedSystems E rest (sysExecute E sy w)
      else executedSystems E rest w)"

text \<open>Every entry of the pool sits in the bucket of the label its object carries.\<close>

definition poolsLabelled :: "env \<Rightarrow> (label \<rightharpoonup> obj set) \<Rightarrow> bool" where
  "poolsLabelled E p \<longleftrightarrow> (\<forall>(l, ob) \<in> poolEntries p. objLabel E ob = l)"

definition stepEvents :: "(label \<times> obj) list \<Rightarrow> event list" where
  "stepEvents vis = concat (map (\<lambda>(l, ob). [EvOnStep ob, EvDoFrameStep ob]) vis)"

definition memEvents :: "(label \<times> obj) list \<Rightarrow> event list" where
  "memEvents vis = map (\<lambda>(l, ob). EvMemXY ob) vis"

text \<open>The size of the active pool: the number of its entries.\<close>

definition activeSize :: "engine \<Rightarrow> nat" where
  "activeSize s = card (poolEntries (activePool s))"

text \<open>
  The register requests step 1 drains, the world as step 5 finds it, the unregister
  requests step 5 drains, and the pool entries the requests name: a register request counts for the active pool when its flag is
  true, an unregister request when its object's \<^verbatim>\<open>IsActive\<close> is true.
\<close>

definition registersDrained :: "engine \<Rightarrow> resourceAccessRequest list" where
  "registersDrained s = registerChannel (wld s)"

definition worldAtStep5 :: "env \<Rightarrow> sched \<Rightarrow> engine \<Rightarrow> world" where
  "worldAtStep5 E sch s =
     (case drainRegister E s of
        Inl e \<Rightarrow> wld s
      | Inr s1 \<Rightarrow> wld (stepsTwoToFour E sch s1))"

definition unregistersDrained :: "env \<Rightarrow> sched \<Rightarrow> engine \<Rightarrow> resourceAccessRequest list" where
  "unregistersDrained E sch s = unregisterChannel (worldAtStep5 E sch s)"

text \<open>The active pool as step 1 leaves it: the pool that steps 2 to 4 see.\<close>

definition poolAfterRegister :: "env \<Rightarrow> engine \<Rightarrow> (label \<rightharpoonup> obj set)" where
  "poolAfterRegister E s =
     (case drainRegister E s of
        Inl e \<Rightarrow> activePool s
      | Inr s1 \<Rightarrow> activePool s1)"

definition entryOf :: "env \<Rightarrow> resourceAccessRequest \<Rightarrow> label \<times> obj" where
  "entryOf E r = (objLabel E (payload r), payload r)"

definition activeAdds :: "env \<Rightarrow> resourceAccessRequest list \<Rightarrow> (label \<times> obj) set" where
  "activeAdds E reqs = entryOf E ` set (filter (\<lambda>r. isActive r = Some True) reqs)"

definition activeRemoves :: "env \<Rightarrow> world \<Rightarrow> resourceAccessRequest list \<Rightarrow> (label \<times> obj) set" where
  "activeRemoves E w reqs = entryOf E ` set (filter (\<lambda>r. IsActive w (payload r)) reqs)"

text \<open>
  What steps 2 and 3 do to the world: each listed system executed if the world at its
  turn has it enabled; each visited object stepped, then its sprite's frame advanced.
\<close>

definition systemsEffect :: "env \<Rightarrow> sys list \<Rightarrow> world \<Rightarrow> world" where
  "systemsEffect E syss w =
     fold (\<lambda>sy w. if sysEnabled w sy then sysExecute E sy w else w) syss w"

definition stepsEffect :: "env \<Rightarrow> (label \<times> obj) list \<Rightarrow> world \<Rightarrow> world" where
  "stepsEffect E vis w = fold (\<lambda>(l, ob) w. DoFrameStep E ob (OnStep E ob w)) vis w"

text \<open>Two worlds that differ at most in the positions and in the stores left to make.\<close>

definition sameButPositions :: "world \<Rightarrow> world \<Rightarrow> bool" where
  "sameButPositions w w' \<longleftrightarrow> w'\<lparr>tfs := tfs w, pending := pending w\<rparr> = w"

text \<open>
  The world each listed system finds when the loop of step 2 reaches it, and the
  systems that are enabled in the world they find.
\<close>

fun turnWorlds :: "env \<Rightarrow> sys list \<Rightarrow> world \<Rightarrow> world list" where
  "turnWorlds E [] w = []"
| "turnWorlds E (sy # rest) w =
     w # turnWorlds E rest (if sysEnabled w sy then sysExecute E sy w else w)"

definition enabledAtTurn :: "env \<Rightarrow> sys list \<Rightarrow> world \<Rightarrow> sys list" where
  "enabledAtTurn E syss w =
     map fst (filter (\<lambda>(sy, wt). sysEnabled wt sy) (zip syss (turnWorlds E syss w)))"

text \<open>The events of one kind, the events a tick adds, and the order of priorities.\<close>

fun isExecute :: "event \<Rightarrow> bool" where
  "isExecute (EvExecute sy) = True"
| "isExecute e = False"

fun isOnStep :: "event \<Rightarrow> bool" where
  "isOnStep (EvOnStep ob) = True"
| "isOnStep e = False"

definition tickEvents :: "engine \<Rightarrow> engine \<Rightarrow> event list" where
  "tickEvents s s' = drop (length (trace s)) (trace s')"

definition prioLess :: "env \<Rightarrow> sys \<Rightarrow> sys \<Rightarrow> bool" where
  "prioLess E a b \<longleftrightarrow> sysPriority E a < sysPriority E b"

definition prioLeq :: "env \<Rightarrow> sys \<Rightarrow> sys \<Rightarrow> bool" where
  "prioLeq E a b \<longleftrightarrow> sysPriority E a \<le> sysPriority E b"

text \<open>No system's \<^verbatim>\<open>Execute\<close> changes an enabled flag.\<close>

definition flagsKept :: "env \<Rightarrow> bool" where
  "flagsKept E \<longleftrightarrow> (\<forall>sy w. sysEnabled (sysExecute E sy w) = sysEnabled w)"

text \<open>The object holds a \<^verbatim>\<open>*Transform2D\<close> under the name \<^verbatim>\<open>Transform2D\<close>.\<close>

definition hasTransform2D :: "world \<Rightarrow> obj \<Rightarrow> bool" where
  "hasTransform2D w ob =
     (case components w ob NameTransform2D of Some (Transform2DPtr r) \<Rightarrow> True | _ \<Rightarrow> False)"

section \<open>A small scene\<close>

text \<open>
  Three objects under one label, each with its own \<^verbatim>\<open>Transform2D\<close> (object \<open>n\<close> owns
  cell \<open>n\<close>) and sprite depths 3, 1 and 2.  Objects 1 and 2 are in the active pool, a
  register request for object 3 is queued.  The step callback moves its object, and
  object 2 asks to be unregistered; the frame step advances the sprite's frame; the
  render callback draws its object.  Of the systems 10, 20 and 30, registered in the
  order 30, 10, 20 with their numbers as priorities, system 20 is disabled.  Key 87 has
  just been pressed and is held.  No task is with the executor.
\<close>

definition sceneOnStep :: "obj \<Rightarrow> world \<Rightarrow> world" where
  "sceneOnStep ob w =
     (let w1 = w\<lparr>tfs := (tfs w)(ob := (tfs w ob)\<lparr>X := 0x3F800000, Y := 0x40000000\<rparr>)\<rparr>
      in if ob = 2
         then w1\<lparr>unregisterChannel := unregisterChannel w1 @ [\<lparr>payload = 2, isActive = None\<rparr>]\<rparr>
         else w1)"

fun insertBy :: "('a \<Rightarrow> 'a \<Rightarrow> bool) \<Rightarrow> 'a \<Rightarrow> 'a list \<Rightarrow> 'a list" where
  "insertBy lt x [] = [x]"
| "insertBy lt x (y # ys) = (if lt y x then y # insertBy lt x ys else x # y # ys)"

fun sortBy :: "('a \<Rightarrow> 'a \<Rightarrow> bool) \<Rightarrow> 'a list \<Rightarrow> 'a list" where
  "sortBy lt [] = []"
| "sortBy lt (x # xs) = insertBy lt x (sortBy lt xs)"

definition sceneEnv :: env where
  "sceneEnv =
     \<lparr>OnStep = sceneOnStep,
      OnRender = (\<lambda>ob w. w\<lparr>screen := screen w @ [ob]\<rparr>),
      DoFrameStep = (\<lambda>ob w. w\<lparr>spriteFrame := (spriteFrame w)(ob := Suc (spriteFrame w ob))\<rparr>),
      sysExecute = (\<lambda>sy w. w),
      sysPriority = (\<lambda>sy. int sy),
      objLabel = (\<lambda>ob. 0),
      sortSlice = sortBy\<rparr>"

definition sceneWorld :: world where
  "sceneWorld =
     \<lparr>tfs = (\<lambda>r. NewTransform2D),
      components = (\<lambda>ob. [NameTransform2D \<mapsto> Transform2DPtr ob]),
      IsActive = (\<lambda>ob. True),
      spriteZ = (\<lambda>ob. if ob = 1 then 3 else if ob = 2 then 1 else 2),
      spriteFrame = (\<lambda>ob. 0),
      sysEnabled = (\<lambda>sy. sy \<noteq> 20),
      registerChannel = [\<lparr>payload = 3, isActive = Some True\<rparr>],
      unregisterChannel = [],
      inputBuffer = (\<lambda>k. {})(KeyPress := {87}, KeyHold := {87}),
      screen = [],
      pending = []\<rparr>"

definition scene :: engine where
  "scene =
     \<lparr>wld = sceneWorld,
      activePool = [0 \<mapsto> {1, 2}],
      inactivePool = Map.empty,
      systemPriorityList = [10, 20, 30],
      renderSortList = [],
      trace = []\<rparr>"

definition sceneSched :: sched where
  "sceneSched =
     \<lparr>stepOrder = [(0, 2), (0, 3), (0, 1)], memOrder = [(0, 3), (0, 1)],
      storesBeforeMem = 0, storesDuringMem = []\<rparr>"

text \<open>The same scene with objects 1, 2 and 3 all in the active pool, as the render loop visits it.\<close>

definition sceneOfThree :: engine where
  "sceneOfThree = scene\<lparr>activePool := [0 \<mapsto> {1, 2, 3}]\<rparr>"

text \<open>An empty engine with one register request queued whose flag is false.\<close>

definition flagFalseScene :: engine where
  "flagFalseScene =
     \<lparr>wld = sceneWorld\<lparr>registerChannel := [\<lparr>payload = 7, isActive = Some False\<rparr>]\<rparr>,
      activePool = Map.empty,
      inactivePool = Map.empty,
      systemPriorityList = [],
      renderSortList = [],
      trace = []\<rparr>"

definition emptySched :: sched where
  "emptySched = \<lparr>stepOrder = [], memOrder = [], storesBeforeMem = 0, storesDuringMem = []\<rparr>"

text \<open>The scene with object 1 stripped of its components.\<close>

definition bareScene :: engine where
  "bareScene = scene\<lparr>wld := sceneWorld\<lparr>components := (components sceneWorld)(1 := Map.empty)\<rparr>\<rparr>"

text \<open>
  A scene for the physics system.  Object 1 alone is active and rests at the origin; its
  step callback does nothing.  System 10 is the physics system with object 1 subscribed:
  its task moves the object by 1.0 along each axis (\<open>plusOne\<close> is that sum on the bit
  patterns of 0.0 and 1.0).  In \<open>tornSched\<close> the worker makes the first store before
  \<^verbatim>\<open>MemXY\<close> is called and the second after it; in \<open>lateSched\<close> both after it.
\<close>

definition plusOne :: "float32 \<Rightarrow> float32" where
  "plusOne x = (if x = 0 then 0x3F800000 else if x = 0x3F800000 then 0x40000000 else x)"

definition wrapperOne :: PhysicalComponentWrapper where
  "wrapperOne = \<lparr>wRigidBody2D = 5, wTransform2D = 1, wPolygonCollider = 6\<rparr>"

definition raceEnv :: env where
  "raceEnv =
     sceneEnv\<lparr>OnStep := (\<lambda>ob w. w),
              sysExecute := (\<lambda>sy w. if sy = 10
                                     then physicsExecute PerLoop [(1, wrapperOne)]
                                            (\<lambda>item. (plusOne, plusOne)) w
                                     else w)\<rparr>"

definition raceScene :: engine where
  "raceScene =
     \<lparr>wld = sceneWorld\<lparr>registerChannel := []\<rparr>,
      activePool = [0 \<mapsto> {1}],
      inactivePool = Map.empty,
      systemPriorityList = [10],
      renderSortList = [],
      trace = []\<rparr>"

definition tornSched :: sched where
  "tornSched =
     \<lparr>stepOrder = [(0, 1)], memOrder = [(0, 1)], storesBeforeMem = 1, storesDuringMem = [1]\<rparr>"

definition lateSched :: sched where
  "lateSched =
     \<lparr>stepOrder = [(0, 1)], memOrder = [(0, 1)], storesBeforeMem = 0, storesDuringMem = [2]\<rparr>"

text \<open>Two entries of \<^verbatim>\<open>obj2data\<close> and a fresh executor.\<close>

definition wrapperA :: PhysicalComponentWrapper where
  "wrapperA = \<lparr>wRigidBody2D = 11, wTransform2D = 12, wPolygonCollider = 13\<rparr>"

definition wrapperB :: PhysicalComponentWrapper where
  "wrapperB = \<lparr>wRigidBody2D = 21, wTransform2D = 22, wPolygonCollider = 23\<rparr>"

definition twoEntries :: "(obj \<times> PhysicalComponentWrapper) list" where
  "twoEntries = [(1, wrapperA), (2, wrapperB)]"

definition physStart :: physState where
  "physStart =
     \<lparr>executor = NewExecutor 2,
      cells = (\<lambda>v. \<lparr>wRigidBody2D = 0, wTransform2D = 0, wPolygonCollider = 0\<rparr>),
      nextVar = 0,
      integrated = []\<rparr>"

text \<open>
  A configuration, the constants, a process before \<^verbatim>\<open>GlobalInitializer\<close>, and the
  application that \<^verbatim>\<open>NewApplication\<close> builds from them.
\<close>

definition someConsts :: coreConsts where
  "someConsts = \<lparr>Cas_CoreController = 0, Cas_False = 0, Cas_True = 1, Label_Default = 0\<rparr>"

definition someConfig :: AppConfig where
  "someConfig =
     \<lparr>Resolution = Some (0x4084000000000000, 0x407E000000000000),
      PhysicalFps = 60,
      RenderFps = 144,
      Parallelism = 0,
      Title = ''demo'',
      RenderFunc = Some 1,
      InitFunc = Some 0\<rparr>"

definition blankProcess :: process where
  "blankProcess =
     \<lparr>casList = [],
      mutexList = 0,
      app = None,
      screenResolution = None,
      procActivePool = Map.empty,
      procInactivePool = Map.empty,
      procInputBuffer = (\<lambda>k. {})\<rparr>"

definition someApp :: Application where
  "someApp =
     \<lparr>initFunc = Some 0,
      status = GameLoopStats_Initialized,
      parallelism = 1,
      physicalFPS = 60,
      renderFPS = 144,
      renderTicker = 6944444,
      physicalTicker = 16666666,
      appExecutor = NewExecutor 1,
      wg = 0,
      sigKill = newChan 1,
      running = False\<rparr>"

definition someLife :: life where
  "someLife = \<lparr>theApp = someApp, calls = []\<rparr>"

text \<open>
  The same application while \<^verbatim>\<open>Start\<close> sits in the render loop: marked running, the
  executor started twice, the wait group at one.
\<close>

definition renderingLife :: life where
  "renderingLife =
     \<lparr>theApp = someApp\<lparr>status := GameLoopStats_Running, running := True, wg := 1,
                          appExecutor := Run (Run (NewExecutor 1))\<rparr>,
      calls = [EvInitOpenGL, EvInitFunc 0, EvExecutorRun, EvGoRunWorkerLoop,
               EvExecutorRun, EvWgAdd, EvRenderLoop]\<rparr>"

section \<open>Properties of the model\<close>

subsection \<open>Auxiliary facts\<close>


lemma MemXY_fields:
  "prevX (MemXY tf) = X tf" "prevY (MemXY tf) = Y tf" "X (MemXY tf) = X tf" "Y (MemXY tf) = Y tf"
  by (simp_all add: MemXY_def Let_def)

lemma applyStore_frame:
  "components (applyStore st w) = components w" "IsActive (applyStore st w) = IsActive w"
  "spriteZ (applyStore st w) = spriteZ w" "spriteFrame (applyStore st w) = spriteFrame w"
  "sysEnabled (applyStore st w) = sysEnabled w"
  "registerChannel (applyStore st w) = registerChannel w"
  "unregisterChannel (applyStore st w) = unregisterChannel w"
  "inputBuffer (applyStore st w) = inputBuffer w" "screen (applyStore st w) = screen w"
  "pending (applyStore st w) = pending w"
  by (simp_all add: applyStore_def split: store.splits)

lemma fold_applyStore_frame:
  "components (fold applyStore sts w) = components w
   \<and> IsActive (fold applyStore sts w) = IsActive w
   \<and> spriteZ (fold applyStore sts w) = spriteZ w
   \<and> spriteFrame (fold applyStore sts w) = spriteFrame w
   \<and> sysEnabled (fold applyStore sts w) = sysEnabled w
   \<and> registerChannel (fold applyStore sts w) = registerChannel w
   \<and> unregisterChannel (fold applyStore sts w) = unregisterChannel w
   \<and> inputBuffer (fold applyStore sts w) = inputBuffer w
   \<and> screen (fold applyStore sts w) = screen w
   \<and> pending (fold applyStore sts w) = pending w"
  by (induction sts arbitrary: w) (simp_all add: applyStore_frame)

lemma workers_frame:
  "components (workers n w) = components w" "IsActive (workers n w) = IsActive w"
  "spriteZ (workers n w) = spriteZ w" "spriteFrame (workers n w) = spriteFrame w"
  "sysEnabled (workers n w) = sysEnabled w"
  "registerChannel (workers n w) = registerChannel w"
  "unregisterChannel (workers n w) = unregisterChannel w"
  "inputBuffer (workers n w) = inputBuffer w" "screen (workers n w) = screen w"
  "pending (workers n w) = drop n (pending w)"
  by (simp_all add: workers_def fold_applyStore_frame)


lemma workersRun_frame:
  "activePool (workersRun n s) = activePool s" "inactivePool (workersRun n s) = inactivePool s"
  "systemPriorityList (workersRun n s) = systemPriorityList s"
  "renderSortList (workersRun n s) = renderSortList s"
  "trace (workersRun n s) = trace s"
  "wld (workersRun n s) = workers n (wld s)"
  by (simp_all add: workersRun_def)


lemma memOne_frame:
  assumes "memOne ob s = Inr s1"
  shows "activePool s1 = activePool s" "inactivePool s1 = inactivePool s"
    "systemPriorityList s1 = systemPriorityList s" "renderSortList s1 = renderSortList s"
    "trace s1 = trace s @ [EvMemXY ob]"
  using assms
  by (auto simp: memOne_def logEv_def split: option.splits component.splits)

lemma memOne_world:
  assumes "memOne ob s = Inr s1"
  shows "components (wld s1) = components (wld s)" "IsActive (wld s1) = IsActive (wld s)"
    "spriteZ (wld s1) = spriteZ (wld s)" "spriteFrame (wld s1) = spriteFrame (wld s)"
    "sysEnabled (wld s1) = sysEnabled (wld s)"
    "registerChannel (wld s1) = registerChannel (wld s)"
    "unregisterChannel (wld s1) = unregisterChannel (wld s)"
    "inputBuffer (wld s1) = inputBuffer (wld s)" "screen (wld s1) = screen (wld s)"
    "pending (wld s1) = pending (wld s)"
  using assms
  by (auto simp: memOne_def logEv_def split: option.splits component.splits)


lemma memorize_step:
  assumes "memorize ((l, ob) # vis) ns s = Inr s'"
  obtains s1 where "memOne ob s = Inr s1"
    and "memorize vis (tl ns) (workersRun (nextStores ns) s1) = Inr s'"
  using assms by (auto split: sum.splits)

lemma memorize_frame:
  "memorize vis ns s = Inr s' \<Longrightarrow>
     activePool s' = activePool s \<and> inactivePool s' = inactivePool s
     \<and> systemPriorityList s' = systemPriorityList s \<and> renderSortList s' = renderSortList s
     \<and> trace s' = trace s @ memEvents vis"
proof (induction vis arbitrary: s ns)
  case Nil
  then show ?case by (simp add: memEvents_def)
next
  case (Cons a vis)
  obtain l ob where a: "a = (l, ob)" by (cases a)
  from Cons.prems a obtain s1 where m1: "memOne ob s = Inr s1"
    and rest: "memorize vis (tl ns) (workersRun (nextStores ns) s1) = Inr s'"
    by (auto split: sum.splits)
  from Cons.IH[OF rest] memOne_frame[OF m1] a show ?case
    by (simp add: workersRun_frame memEvents_def)
qed

lemma memorize_world:
  "memorize vis ns s = Inr s' \<Longrightarrow>
     components (wld s') = components (wld s) \<and> IsActive (wld s') = IsActive (wld s)
     \<and> spriteZ (wld s') = spriteZ (wld s) \<and> spriteFrame (wld s') = spriteFrame (wld s)
     \<and> sysEnabled (wld s') = sysEnabled (wld s)
     \<and> registerChannel (wld s') = registerChannel (wld s)
     \<and> unregisterChannel (wld s') = unregisterChannel (wld s)
     \<and> inputBuffer (wld s') = inputBuffer (wld s) \<and> screen (wld s') = screen (wld s)"
proof (induction vis arbitrary: s ns)
  case Nil
  then show ?case by simp
next
  case (Cons a vis)
  obtain l ob where a: "a = (l, ob)" by (cases a)
  from Cons.prems a obtain s1 where m1: "memOne ob s = Inr s1"
    and rest: "memorize vis (tl ns) (workersRun (nextStores ns) s1) = Inr s'"
    by (auto split: sum.splits)
  from Cons.IH[OF rest] memOne_world[OF m1] show ?case
    by (simp add: workersRun_frame workers_frame)
qed

lemma memorize_quiet_pending:
  "memorize vis ns s = Inr s' \<Longrightarrow> pending (wld s) = [] \<Longrightarrow> pending (wld s') = []"
proof (induction vis arbitrary: s ns)
  case Nil
  then show ?case by simp
next
  case (Cons a vis)
  obtain l ob where a: "a = (l, ob)" by (cases a)
  from Cons.prems(1) a obtain s1 where m1: "memOne ob s = Inr s1"
    and rest: "memorize vis (tl ns) (workersRun (nextStores ns) s1) = Inr s'"
    by (auto split: sum.splits)
  have "pending (wld (workersRun (nextStores ns) s1)) = []"
    using memOne_world(10)[OF m1] Cons.prems(2) by (simp add: workersRun_frame workers_frame)
  from Cons.IH[OF rest this] show ?case .
qed



lemma addObjDefault_frame:
  "wld (addObjDefault E ob act s) = wld s"
  "systemPriorityList (addObjDefault E ob act s) = systemPriorityList s"
  "renderSortList (addObjDefault E ob act s) = renderSortList s"
  "trace (addObjDefault E ob act s) = trace s"
  by (simp_all add: addObjDefault_def Let_def)

lemma removeObjDefault_frame:
  "wld (removeObjDefault E ob act s) = wld s"
  "systemPriorityList (removeObjDefault E ob act s) = systemPriorityList s"
  "renderSortList (removeObjDefault E ob act s) = renderSortList s"
  "trace (removeObjDefault E ob act s) = trace s"
  by (simp_all add: removeObjDefault_def Let_def)

lemma logEv_frame:
  "wld (logEv e s) = wld s" "activePool (logEv e s) = activePool s"
  "inactivePool (logEv e s) = inactivePool s"
  "systemPriorityList (logEv e s) = systemPriorityList s"
  "renderSortList (logEv e s) = renderSortList s"
  "trace (logEv e s) = trace s @ [e]"
  by (simp_all add: logEv_def)

lemma drainRegisterLoop_frame:
  "drainRegisterLoop E reqs s = Inr s' \<Longrightarrow>
     wld s' = wld s \<and> systemPriorityList s' = systemPriorityList s
     \<and> renderSortList s' = renderSortList s"
proof (induction reqs arbitrary: s)
  case Nil
  then show ?case by simp
next
  case (Cons req reqs)
  then show ?case
    by (fastforce simp: addObjDefault_frame logEv_frame split: option.splits)
qed

lemma drainRegisterLoop_trace:
  "drainRegisterLoop E reqs s = Inr s' \<Longrightarrow>
     \<exists>acts. map isActive reqs = map Some acts
        \<and> trace s' = trace s @ map2 EvAddObj (map payload reqs) acts"
proof (induction reqs arbitrary: s)
  case Nil
  then show ?case by simp
next
  case (Cons req reqs)
  from Cons.prems obtain act where a: "isActive req = Some act"
    and rest: "drainRegisterLoop E reqs
                 (addObjDefault E (payload req) act (logEv (EvAddObj (payload req) act) s)) = Inr s'"
    by (auto split: option.splits)
  from Cons.IH[OF rest] obtain acts where
    m: "map isActive reqs = map Some acts"
    and t: "trace s' = trace s @ [EvAddObj (payload req) act] @ map2 EvAddObj (map payload reqs) acts"
    by (auto simp: addObjDefault_frame logEv_frame)
  have "map isActive (req # reqs) = map Some (act # acts)" using a m by simp
  moreover have "trace s' = trace s @ map2 EvAddObj (map payload (req # reqs)) (act # acts)"
    using t by simp
  ultimately show ?case by blast
qed

lemma executeSystems_frame:
  "activePool (executeSystems E syss s) = activePool s
   \<and> inactivePool (executeSystems E syss s) = inactivePool s
   \<and> systemPriorityList (executeSystems E syss s) = systemPriorityList s
   \<and> renderSortList (executeSystems E syss s) = renderSortList s"
  by (induction syss arbitrary: s) (simp_all add: logEv_frame)

lemma executeSystems_trace:
  "trace (executeSystems E syss s) = trace s @ map EvExecute (executedSystems E syss (wld s))"
  by (induction syss arbitrary: s) (simp_all add: logEv_frame)

lemma userStep_frame:
  "activePool (userStep E ob s) = activePool s"
  "inactivePool (userStep E ob s) = inactivePool s"
  "systemPriorityList (userStep E ob s) = systemPriorityList s"
  "renderSortList (userStep E ob s) = renderSortList s"
  "trace (userStep E ob s) = trace s @ [EvOnStep ob, EvDoFrameStep ob]"
  by (simp_all add: userStep_def Let_def logEv_frame)

lemma doUserSteps_frame:
  "activePool (doUserSteps E vis s) = activePool s
   \<and> inactivePool (doUserSteps E vis s) = inactivePool s
   \<and> systemPriorityList (doUserSteps E vis s) = systemPriorityList s
   \<and> renderSortList (doUserSteps E vis s) = renderSortList s"
  by (induction vis arbitrary: s) (auto simp: userStep_frame)

lemma doUserSteps_trace:
  "trace (doUserSteps E vis s) = trace s @ stepEvents vis"
  by (induction vis arbitrary: s) (auto simp: userStep_frame stepEvents_def)

lemma flushInput_frame:
  "activePool (flushInput s) = activePool s" "inactivePool (flushInput s) = inactivePool s"
  "systemPriorityList (flushInput s) = systemPriorityList s"
  "renderSortList (flushInput s) = renderSortList s"
  "trace (flushInput s) = trace s @ [EvFlushInputBuffer]"
  by (simp_all add: flushInput_def logEv_frame)

lemma drainUnregisterLoop_frame:
  "wld (drainUnregisterLoop E reqs s) = wld s
   \<and> systemPriorityList (drainUnregisterLoop E reqs s) = systemPriorityList s
   \<and> renderSortList (drainUnregisterLoop E reqs s) = renderSortList s"
  by (induction reqs arbitrary: s) (simp_all add: removeObjDefault_frame logEv_frame)

lemma drainUnregisterLoop_trace:
  "trace (drainUnregisterLoop E reqs s) =
     trace s @ map (\<lambda>r. EvRemoveObj (payload r) (IsActive (wld s) (payload r))) reqs"
  by (induction reqs arbitrary: s) (simp_all add: removeObjDefault_frame logEv_frame)

lemma executeSystems_wld: "wld (executeSystems E syss s) = systemsEffect E syss (wld s)"
  by (induction syss arbitrary: s) (simp_all add: systemsEffect_def logEv_frame)

lemma userStep_wld: "wld (userStep E ob s) = DoFrameStep E ob (OnStep E ob (wld s))"
  by (simp add: userStep_def Let_def logEv_frame)

lemma doUserSteps_wld: "wld (doUserSteps E vis s) = stepsEffect E vis (wld s)"
  by (induction vis arbitrary: s) (auto simp: stepsEffect_def userStep_wld)

lemma flushInput_wld: "wld (flushInput s) = FlushInputBuffer (wld s)"
  by (simp add: flushInput_def logEv_frame)

lemma poolEntries_empty: "poolEntries Map.empty = {}"
  by (simp add: poolEntries_def bucket_def)

lemma poolEntries_upd:
  "poolEntries (p(l \<mapsto> b)) = {e \<in> poolEntries p. fst e \<noteq> l} \<union> {l} \<times> b"
  by (auto simp: poolEntries_def bucket_def split: if_splits)

lemma poolEntries_insert:
  "poolEntries (p(l \<mapsto> insert ob (bucket p l))) = insert (l, ob) (poolEntries p)"
  by (auto simp: poolEntries_def bucket_def split: option.splits if_splits)

lemma poolEntries_removeFrom:
  "poolEntries (removeFrom p l ob) = poolEntries p - {(l, ob)}"
  by (auto simp: poolEntries_def bucket_def removeFrom_def split: option.splits if_splits)

lemma addObjDefault_active:
  "poolEntries (activePool (addObjDefault E ob act s)) =
     (if act then insert (objLabel E ob, ob) (poolEntries (activePool s))
      else poolEntries (activePool s))"
  by (simp add: addObjDefault_def Let_def poolEntries_insert)

lemma removeObjDefault_active:
  "poolEntries (activePool (removeObjDefault E ob act s)) =
     (if act then poolEntries (activePool s) - {(objLabel E ob, ob)}
      else poolEntries (activePool s))"
  by (simp add: removeObjDefault_def Let_def poolEntries_removeFrom)

lemma drainRegisterLoop_active:
  "drainRegisterLoop E reqs s = Inr s' \<Longrightarrow>
     poolEntries (activePool s') = poolEntries (activePool s) \<union> activeAdds E reqs"
proof (induction reqs arbitrary: s)
  case Nil
  then show ?case by (simp add: activeAdds_def)
next
  case (Cons req reqs)
  from Cons.prems obtain act where a: "isActive req = Some act"
    and rest: "drainRegisterLoop E reqs
                 (addObjDefault E (payload req) act (logEv (EvAddObj (payload req) act) s)) = Inr s'"
    by (auto split: option.splits)
  from Cons.IH[OF rest] a show ?case
    by (auto simp: addObjDefault_active logEv_frame activeAdds_def entryOf_def)
qed

lemma drainUnregisterLoop_active:
  "poolEntries (activePool (drainUnregisterLoop E reqs s)) =
     poolEntries (activePool s) - activeRemoves E (wld s) reqs"
proof (induction reqs arbitrary: s)
  case Nil
  then show ?case by (simp add: activeRemoves_def)
next
  case (Cons req reqs)
  show ?case
    by (auto simp: Cons.IH removeObjDefault_active removeObjDefault_frame logEv_frame
        activeRemoves_def entryOf_def)
qed

lemma activeAdds_labelled: "(l, ob) \<in> activeAdds E reqs \<Longrightarrow> objLabel E ob = l"
  by (auto simp: activeAdds_def entryOf_def)

lemma poolsLabelled_label: "poolsLabelled E p \<Longrightarrow> (l, ob) \<in> poolEntries p \<Longrightarrow> objLabel E ob = l"
  unfolding poolsLabelled_def by blast

lemma poolsLabelled_inj: "poolsLabelled E p \<Longrightarrow> inj_on snd (poolEntries p)"
proof (rule inj_onI)
  fix x y
  assume lab: "poolsLabelled E p" and x: "x \<in> poolEntries p" and y: "y \<in> poolEntries p"
    and eq: "snd x = snd y"
  from poolsLabelled_label[OF lab, of "fst x" "snd x"] x have "objLabel E (snd x) = fst x" by simp
  moreover from poolsLabelled_label[OF lab, of "fst y" "snd y"] y have "objLabel E (snd y) = fst y" by simp
  ultimately show "x = y" using eq by (simp add: prod_eq_iff)
qed

lemma poolsLabelled_distinct:
  assumes "poolsLabelled E p" "rangeOf p vis"
  shows "distinct (map snd vis)"
  using assms poolsLabelled_inj[OF assms(1)] by (simp add: distinct_map rangeOf_def)

lemma tick_parts:
  assumes "doPhysicalUpdate E sch s = Inr s'"
  shows "\<exists>s1. drainRegister E s = Inr s1
           \<and> beforeMemorize E sch s = Inr (drainUnregister E (stepsTwoToFour E sch s1))
           \<and> memorize (memOrder sch) (storesDuringMem sch)
                (workersRun (storesBeforeMem sch) (drainUnregister E (stepsTwoToFour E sch s1))) = Inr s'"
  using assms by (auto simp: doPhysicalUpdate_def beforeMemorize_def split: sum.splits)

lemma drainRegister_facts:
  assumes "drainRegister E s = Inr s1"
  shows "wld s1 = (wld s)\<lparr>registerChannel := []\<rparr>"
    and "systemPriorityList s1 = systemPriorityList s"
    and "poolEntries (activePool s1) = poolEntries (activePool s) \<union> activeAdds E (registersDrained s)"
    and "\<exists>acts. map isActive (registersDrained s) = map Some acts
           \<and> trace s1 = trace s @ map2 EvAddObj (map payload (registersDrained s)) acts"
proof -
  let ?s0 = "s\<lparr>wld := (wld s)\<lparr>registerChannel := []\<rparr>\<rparr>"
  from assms have l: "drainRegisterLoop E (registerChannel (wld s)) ?s0 = Inr s1"
    by (simp add: drainRegister_def)
  from drainRegisterLoop_frame[OF l] show "wld s1 = (wld s)\<lparr>registerChannel := []\<rparr>"
    and "systemPriorityList s1 = systemPriorityList s" by simp_all
  from drainRegisterLoop_active[OF l]
  show "poolEntries (activePool s1) = poolEntries (activePool s) \<union> activeAdds E (registersDrained s)"
    by (simp add: registersDrained_def)
  from drainRegisterLoop_trace[OF l]
  show "\<exists>acts. map isActive (registersDrained s) = map Some acts
           \<and> trace s1 = trace s @ map2 EvAddObj (map payload (registersDrained s)) acts"
    by (simp add: registersDrained_def)
qed

lemma stepsTwoToFour_wld:
  "wld (stepsTwoToFour E sch s1) =
     FlushInputBuffer (stepsEffect E (stepOrder sch) (systemsEffect E (systemPriorityList s1) (wld s1)))"
  by (simp add: stepsTwoToFour_def flushInput_wld doUserSteps_wld executeSystems_wld)

lemma stepsTwoToFour_facts:
  "activePool (stepsTwoToFour E sch s1) = activePool s1"
  "trace (stepsTwoToFour E sch s1) =
     trace s1 @ map EvExecute (executedSystems E (systemPriorityList s1) (wld s1))
       @ stepEvents (stepOrder sch) @ [EvFlushInputBuffer]"
  by (simp_all add: stepsTwoToFour_def flushInput_frame doUserSteps_frame doUserSteps_trace
      executeSystems_frame executeSystems_trace)

lemma activeRemoves_cong: "IsActive w' = IsActive w \<Longrightarrow> activeRemoves E w' reqs = activeRemoves E w reqs"
  by (simp add: activeRemoves_def)

lemma drainUnregister_facts:
  "wld (drainUnregister E s4) = (wld s4)\<lparr>unregisterChannel := []\<rparr>"
  "poolEntries (activePool (drainUnregister E s4)) =
     poolEntries (activePool s4) - activeRemoves E (wld s4) (unregisterChannel (wld s4))"
  "trace (drainUnregister E s4) =
     trace s4 @ map (\<lambda>r. EvRemoveObj (payload r) (IsActive (wld s4) (payload r))) (unregisterChannel (wld s4))"
  by (simp_all add: drainUnregister_def drainUnregisterLoop_frame drainUnregisterLoop_active
      drainUnregisterLoop_trace activeRemoves_def)

lemma tick_vocab:
  assumes "drainRegister E s = Inr s1"
  shows "worldAtStep5 E sch s = wld (stepsTwoToFour E sch s1)"
    and "unregistersDrained E sch s = unregisterChannel (wld (stepsTwoToFour E sch s1))"
    and "poolAfterRegister E s = activePool s1"
  using assms by (simp_all add: worldAtStep5_def unregistersDrained_def poolAfterRegister_def)

lemma tick_trace:
  assumes "doPhysicalUpdate E sch s = Inr s'"
  shows "\<exists>acts. map isActive (registersDrained s) = map Some acts
     \<and> trace s' = trace s
         @ map2 EvAddObj (map payload (registersDrained s)) acts
         @ map EvExecute (executedSystems E (systemPriorityList s) ((wld s)\<lparr>registerChannel := []\<rparr>))
         @ stepEvents (stepOrder sch)
         @ [EvFlushInputBuffer]
         @ map (\<lambda>r. EvRemoveObj (payload r) (IsActive (worldAtStep5 E sch s) (payload r)))
             (unregistersDrained E sch s)
         @ memEvents (memOrder sch)"
proof -
  from tick_parts[OF assms] obtain s1 where
    d: "drainRegister E s = Inr s1"
    and m: "memorize (memOrder sch) (storesDuringMem sch)
                (workersRun (storesBeforeMem sch) (drainUnregister E (stepsTwoToFour E sch s1))) = Inr s'"
    by blast
  from drainRegister_facts(4)[OF d] obtain acts where
    a: "map isActive (registersDrained s) = map Some acts"
    and t1: "trace s1 = trace s @ map2 EvAddObj (map payload (registersDrained s)) acts"
    by blast
  have "trace s' = trace (drainUnregister E (stepsTwoToFour E sch s1)) @ memEvents (memOrder sch)"
    using memorize_frame[OF m] by (simp add: workersRun_frame)
  then have "trace s' = trace s
         @ map2 EvAddObj (map payload (registersDrained s)) acts
         @ map EvExecute (executedSystems E (systemPriorityList s) ((wld s)\<lparr>registerChannel := []\<rparr>))
         @ stepEvents (stepOrder sch)
         @ [EvFlushInputBuffer]
         @ map (\<lambda>r. EvRemoveObj (payload r) (IsActive (worldAtStep5 E sch s) (payload r)))
             (unregistersDrained E sch s)
         @ memEvents (memOrder sch)"
    by (simp add: drainUnregister_facts(3) stepsTwoToFour_facts(2) t1 tick_vocab[OF d]
        drainRegister_facts(1,2)[OF d])
  with a show ?thesis by blast
qed

lemma tick_entries:
  assumes "doPhysicalUpdate E sch s = Inr s'"
  shows "poolEntries (poolAfterRegister E s) = poolEntries (activePool s) \<union> activeAdds E (registersDrained s)"
    and "poolEntries (activePool s') =
         poolEntries (poolAfterRegister E s)
           - activeRemoves E (worldAtStep5 E sch s) (unregistersDrained E sch s)"
proof -
  from tick_parts[OF assms] obtain s1 where
    d: "drainRegister E s = Inr s1"
    and m: "memorize (memOrder sch) (storesDuringMem sch)
                (workersRun (storesBeforeMem sch) (drainUnregister E (stepsTwoToFour E sch s1))) = Inr s'"
    by blast
  show "poolEntries (poolAfterRegister E s) = poolEntries (activePool s) \<union> activeAdds E (registersDrained s)"
    by (simp add: tick_vocab[OF d] drainRegister_facts(3)[OF d])
  have "activePool s' = activePool (drainUnregister E (stepsTwoToFour E sch s1))"
    using memorize_frame[OF m] by (simp add: workersRun_frame)
  then show "poolEntries (activePool s') =
         poolEntries (poolAfterRegister E s)
           - activeRemoves E (worldAtStep5 E sch s) (unregistersDrained E sch s)"
    by (simp add: drainUnregister_facts(2) stepsTwoToFour_facts(1) tick_vocab[OF d])
qed

lemma tick_labelled:
  assumes "doPhysicalUpdate E sch s = Inr s'" "poolsLabelled E (activePool s)"
  shows "poolsLabelled E (poolAfterRegister E s)" and "poolsLabelled E (activePool s')"
proof -
  show 1: "poolsLabelled E (poolAfterRegister E s)"
    using assms(2) activeAdds_labelled unfolding poolsLabelled_def tick_entries(1)[OF assms(1)]
    by fastforce
  then show "poolsLabelled E (activePool s')"
    unfolding poolsLabelled_def tick_entries(2)[OF assms(1)] by fastforce
qed

lemma sameButPositions_fields:
  assumes "components w' = components w" "IsActive w' = IsActive w" "spriteZ w' = spriteZ w"
    "spriteFrame w' = spriteFrame w" "sysEnabled w' = sysEnabled w"
    "registerChannel w' = registerChannel w" "unregisterChannel w' = unregisterChannel w"
    "inputBuffer w' = inputBuffer w" "screen w' = screen w" "world.more w' = world.more w"
  shows "sameButPositions w w'"
  unfolding sameButPositions_def using assms by (intro world.equality) simp_all

lemma tick_world:
  assumes "doPhysicalUpdate E sch s = Inr s'"
  shows "worldAtStep5 E sch s =
           FlushInputBuffer (stepsEffect E (stepOrder sch)
             (systemsEffect E (systemPriorityList s) ((wld s)\<lparr>registerChannel := []\<rparr>)))"
    and "sameButPositions ((worldAtStep5 E sch s)\<lparr>unregisterChannel := []\<rparr>) (wld s')"
    and "\<exists>s5. beforeMemorize E sch s = Inr s5
           \<and> wld s5 = (worldAtStep5 E sch s)\<lparr>unregisterChannel := []\<rparr>
           \<and> memorize (memOrder sch) (storesDuringMem sch) (workersRun (storesBeforeMem sch) s5) = Inr s'"
proof -
  from tick_parts[OF assms] obtain s1 where
    d: "drainRegister E s = Inr s1"
    and b: "beforeMemorize E sch s = Inr (drainUnregister E (stepsTwoToFour E sch s1))"
    and m: "memorize (memOrder sch) (storesDuringMem sch)
                (workersRun (storesBeforeMem sch) (drainUnregister E (stepsTwoToFour E sch s1))) = Inr s'"
    by blast
  show "worldAtStep5 E sch s =
           FlushInputBuffer (stepsEffect E (stepOrder sch)
             (systemsEffect E (systemPriorityList s) ((wld s)\<lparr>registerChannel := []\<rparr>)))"
    by (simp add: tick_vocab[OF d] stepsTwoToFour_wld drainRegister_facts(1,2)[OF d])
  have w5: "wld (drainUnregister E (stepsTwoToFour E sch s1)) = (worldAtStep5 E sch s)\<lparr>unregisterChannel := []\<rparr>"
    by (simp add: drainUnregister_facts(1) tick_vocab[OF d])
  from memorize_world[OF m]
  show "sameButPositions ((worldAtStep5 E sch s)\<lparr>unregisterChannel := []\<rparr>) (wld s')"
    unfolding w5[symmetric]
    by (intro sameButPositions_fields) (simp_all add: workersRun_frame workers_frame)
  from b w5 m show "\<exists>s5. beforeMemorize E sch s = Inr s5
           \<and> wld s5 = (worldAtStep5 E sch s)\<lparr>unregisterChannel := []\<rparr>
           \<and> memorize (memOrder sch) (storesDuringMem sch) (workersRun (storesBeforeMem sch) s5) = Inr s'"
    by blast
qed

lemma count_list_distinct: "distinct xs \<Longrightarrow> x \<in> set xs \<Longrightarrow> count_list xs x = 1"
  by (induction xs) (auto simp: count_list_0_iff)

lemma count_memEvents: "count_list (memEvents vis) (EvMemXY ob) = count_list (map snd vis) ob"
  by (induction vis) (auto simp: memEvents_def)

lemma no_mem_in_adds: "EvMemXY ob \<notin> set (map2 EvAddObj ps acts)"
  by (auto simp: set_zip)

lemma no_mem_in_steps: "EvMemXY ob \<notin> set (stepEvents vis)"
  by (auto simp: stepEvents_def)

lemma tickEvents_append: "trace s' = trace s @ evs \<Longrightarrow> tickEvents s s' = evs"
  by (simp add: tickEvents_def)

lemma card_pool_change:
  assumes "finite P" "finite A"
  shows "int (card ((P \<union> A) - R)) = int (card P) + int (card (A - P)) - int (card (R \<inter> (P \<union> A)))"
proof -
  have fin: "finite (P \<union> A)" using assms by simp
  have "card ((P \<union> A) - R) = card (P \<union> A) - card ((P \<union> A) \<inter> R)"
    using fin by (simp add: card_Diff_subset_Int)
  moreover have "card ((P \<union> A) \<inter> R) \<le> card (P \<union> A)"
    using fin by (simp add: card_mono)
  moreover have "card (P \<union> A) = card P + card (A - P)"
  proof -
    have "P \<union> A = P \<union> (A - P)" by blast
    moreover have "card (P \<union> (A - P)) = card P + card (A - P)"
      using assms by (intro card_Un_disjoint) auto
    ultimately show ?thesis by simp
  qed
  moreover have "(P \<union> A) \<inter> R = R \<inter> (P \<union> A)" by blast
  ultimately show ?thesis by simp
qed




lemma executedSystems_subseq: "subseq (executedSystems E syss w) syss"
  by (induction syss arbitrary: w) auto

lemma subseq_sorted_wrt: "subseq xs ys \<Longrightarrow> sorted_wrt P ys \<Longrightarrow> sorted_wrt P xs"
  by (induction rule: list_emb.induct) (auto dest: list_emb_set)

lemma executedSystems_filter:
  "flagsKept E \<Longrightarrow> executedSystems E syss w = filter (sysEnabled w) syss"
  by (induction syss arbitrary: w) (auto simp: flagsKept_def)

lemma filter_isExecute:
  "filter isExecute (map2 EvAddObj ps acts) = []"
  "filter isExecute (map EvExecute syss) = map EvExecute syss"
  "filter isExecute (stepEvents vis) = []"
  "filter isExecute (map (\<lambda>r. EvRemoveObj (f r) (g r)) reqs) = []"
  "filter isExecute (memEvents vis) = []"
  by (auto simp: filter_empty_conv set_zip stepEvents_def memEvents_def filter_id_conv)

lemma filter_isOnStep:
  "filter isOnStep (map2 EvAddObj ps acts) = []"
  "filter isOnStep (map EvExecute syss) = []"
  "filter isOnStep (stepEvents vis) = map EvOnStep (map snd vis)"
  "filter isOnStep (map (\<lambda>r. EvRemoveObj (f r) (g r)) reqs) = []"
  "filter isOnStep (memEvents vis) = []"
proof -
  show "filter isOnStep (stepEvents vis) = map EvOnStep (map snd vis)"
    by (induction vis) (auto simp: stepEvents_def)
qed (auto simp: filter_empty_conv set_zip memEvents_def)

lemma executedSystems_turns: "executedSystems E syss w = enabledAtTurn E syss w"
  by (induction syss arbitrary: w) (simp_all add: enabledAtTurn_def)

lemma insertSystem_mset: "mset (insertSystem E sy l) = add_mset sy (mset l)"
  by (induction l) simp_all

lemma insertSystem_sorted:
  "sorted_wrt (prioLeq E) l \<Longrightarrow> sorted_wrt (prioLeq E) (insertSystem E sy l)"
proof (induction l)
  case Nil
  then show ?case by simp
next
  case (Cons x xs)
  have s: "set (insertSystem E sy xs) = insert sy (set xs)"
    using insertSystem_mset[of E sy xs] by (metis mset_eq_setD set_mset_add_mset_insert set_mset_mset)
  from Cons show ?case by (auto simp: prioLeq_def s)
qed

lemma foldl_insertSystem:
  "sorted_wrt (prioLeq E) l \<Longrightarrow>
     sorted_wrt (prioLeq E) (foldl (\<lambda>l sy. insertSystem E sy l) l regs)
     \<and> mset (foldl (\<lambda>l sy. insertSystem E sy l) l regs) = mset l + mset regs"
  by (induction regs arbitrary: l) (simp_all add: insertSystem_sorted insertSystem_mset)

lemma registryOf_sorted: "sorted_wrt (prioLeq E) (registryOf E regs)"
  using foldl_insertSystem[of E "[]" regs] by (simp add: registryOf_def)

lemma registryOf_mset: "mset (registryOf E regs) = mset regs"
  using foldl_insertSystem[of E "[]" regs] by (simp add: registryOf_def)

lemma prio_unfold:
  "prioLeq E = (\<lambda>a b. sysPriority E a \<le> sysPriority E b)"
  "prioLess E = (\<lambda>a b. sysPriority E a < sysPriority E b)"
  by (simp_all add: fun_eq_iff prioLeq_def prioLess_def)

lemma registryOf_strict:
  assumes "distinct (map (sysPriority E) regs)"
  shows "sorted_wrt (prioLess E) (registryOf E regs)"
proof -
  have "mset (map (sysPriority E) (registryOf E regs)) = mset (map (sysPriority E) regs)"
    by (simp add: registryOf_mset)
  from mset_eq_imp_distinct_iff[OF this] have d: "distinct (map (sysPriority E) (registryOf E regs))"
    using assms by blast
  have "sorted (map (sysPriority E) (registryOf E regs))"
    using registryOf_sorted[of E regs] by (simp add: sorted_wrt_map prio_unfold)
  with d have "sorted_wrt (<) (map (sysPriority E) (registryOf E regs))"
    by (simp add: strict_sorted_iff)
  then show ?thesis by (simp add: sorted_wrt_map prio_unfold)
qed

lemma memOne_ok:
  "hasTransform2D (wld s) ob \<Longrightarrow> \<exists>s1. memOne ob s = Inr s1 \<and> components (wld s1) = components (wld s)"
  by (auto simp: hasTransform2D_def memOne_def logEv_def split: option.splits component.splits)

lemma memOne_panic:
  "\<not> hasTransform2D (wld s) ob \<Longrightarrow> memOne ob s = Inl interfaceConversion"
  by (auto simp: hasTransform2D_def memOne_def split: option.splits component.splits)

lemma hasTransform2D_cong:
  "components w' = components w \<Longrightarrow> hasTransform2D w' ob = hasTransform2D w ob"
  by (simp add: hasTransform2D_def)

lemma memorize_ok:
  "\<forall>(l, ob) \<in> set vis. hasTransform2D (wld s) ob \<Longrightarrow> \<exists>s'. memorize vis ns s = Inr s'"
proof (induction vis arbitrary: s ns)
  case Nil
  then show ?case by simp
next
  case (Cons a vis)
  obtain l ob where a: "a = (l, ob)" by (cases a)
  with Cons.prems have "hasTransform2D (wld s) ob" by simp
  from memOne_ok[OF this] obtain s1 where
    m: "memOne ob s = Inr s1" and c: "components (wld s1) = components (wld s)" by blast
  have c': "components (wld (workersRun (nextStores ns) s1)) = components (wld s)"
    using c by (simp add: workersRun_frame workers_frame)
  have "\<forall>(l, ob) \<in> set vis. hasTransform2D (wld (workersRun (nextStores ns) s1)) ob"
    using Cons.prems hasTransform2D_cong[OF c'] by auto
  from Cons.IH[OF this, of "tl ns"] m a show ?case by simp
qed

lemma memorize_panic:
  "(l, ob) \<in> set vis \<Longrightarrow> \<not> hasTransform2D (wld s) ob \<Longrightarrow> memorize vis ns s = Inl interfaceConversion"
proof (induction vis arbitrary: s ns)
  case Nil
  then show ?case by simp
next
  case (Cons a vis)
  obtain l0 ob0 where a: "a = (l0, ob0)" by (cases a)
  show ?case
  proof (cases "hasTransform2D (wld s) ob0")
    case False
    from memOne_panic[OF this] a show ?thesis by simp
  next
    case True
    from memOne_ok[OF this] obtain s1 where
      m: "memOne ob0 s = Inr s1" and c: "components (wld s1) = components (wld s)" by blast
    have c': "components (wld (workersRun (nextStores ns) s1)) = components (wld s)"
      using c by (simp add: workersRun_frame workers_frame)
    from True Cons.prems a have "(l, ob) \<in> set vis" by auto
    moreover have "\<not> hasTransform2D (wld (workersRun (nextStores ns) s1)) ob"
      using Cons.prems(2) hasTransform2D_cong[OF c'] by simp
    ultimately have "memorize vis (tl ns) (workersRun (nextStores ns) s1) = Inl interfaceConversion"
      by (rule Cons.IH)
    with m a show ?thesis by simp
  qed
qed

lemma renderAll_trace: "trace (renderAll E obs s) = trace s @ map EvOnRender obs"
  by (induction obs arbitrary: s) (simp_all add: logEv_frame)

lemma renderAll_wld: "wld (renderAll E obs s) = fold (OnRender E) obs (wld s)"
  by (induction obs arbitrary: s) (simp_all add: logEv_frame)

lemma renderAll_frame:
  "renderSortList (renderAll E obs s) = renderSortList s
   \<and> activePool (renderAll E obs s) = activePool s"
  by (induction obs arbitrary: s) (simp_all add: logEv_frame)

lemma descending_unique:
  fixes zs :: "int list"
  assumes "mset zs = {#3, 1, 2#}" "sorted_wrt (\<lambda>a b. b \<le> a) zs"
  shows "zs = [3, 2, 1]"
proof -
  have s: "sorted (rev zs)" using assms(2) by (simp add: sorted_wrt_rev)
  have m: "mset (rev zs) = mset [3, 1, 2 :: int]" using assms(1) by simp
  have "sort [3, 1, 2 :: int] = rev zs" using m s by (rule properties_for_sort)
  then have "rev zs = [1, 2, 3]" by simp
  then have "rev (rev zs) = rev [1, 2, 3]" by (rule arg_cong)
  then show ?thesis by simp
qed

lemma NewApplication_casList:
  assumes "NewApplication K cfg p = Inr (a, p1)"
  shows "Cas_CoreController K < length (casList p)"
    and "casList p ! Cas_CoreController K = Cas_False K"
    and "casList p1 = (casList p)[Cas_CoreController K := Cas_True K]"
  using assms
  by (auto simp: NewApplication_def Let_def split: if_splits option.splits sum.splits)

lemma call_frame: "theApp (call e st) = theApp st" "calls (call e st) = calls st @ [e]"
  by (simp_all add: call_def)

lemma executorRun_frame:
  "calls (executorRun st) = calls st @ [EvExecutorRun]"
  "status (theApp (executorRun st)) = status (theApp st)"
  "sigKill (theApp (executorRun st)) = sigKill (theApp st)"
  "wg (theApp (executorRun st)) = wg (theApp st)"
  "running (theApp (executorRun st)) = running (theApp st)"
  "appExecutor (theApp (executorRun st)) = Run (appExecutor (theApp st))"
  by (simp_all add: executorRun_def call_frame)

lemma startBoot_facts:
  assumes "startBoot st = Inr st1"
  shows "\<exists>f. initFunc (theApp st) = Some f
           \<and> calls st1 = calls st @ [EvInitOpenGL, EvInitFunc f, EvExecutorRun, EvGoRunWorkerLoop]"
    and "appExecutor (theApp st1) = Run (appExecutor (theApp st))"
    and "wg (theApp st1) = wg (theApp st)"
  using assms by (auto simp: startBoot_def call_frame executorRun_frame split: option.splits)

lemma startRender_facts:
  assumes "startRender st = Inr st'"
  shows "calls st' = calls st @ [EvExecutorRun, EvWgAdd, EvRenderLoop, EvWgDone]"
    and "status (theApp st') = status (theApp st)"
    and "appExecutor (theApp st') = Run (appExecutor (theApp st))"
  using assms
  by (auto simp: startRender_def wgDone_def Let_def call_frame executorRun_frame split: if_splits)

lemmas tick_defs = doPhysicalUpdate_def beforeMemorize_def drainRegister_def stepsTwoToFour_def
      drainUnregister_def flushInput_def userStep_def memOne_def logEv_def addObjDefault_def
      removeObjDefault_def removeFrom_def bucket_def FlushInputBuffer_def Let_def
      workersRun_def workers_def nextStores_def applyStore_def

lemmas scene_defs = sceneEnv_def sceneSched_def scene_def sceneWorld_def sceneOnStep_def
      NameTransform2D_def

lemma scene_labelled: "poolsLabelled sceneEnv (activePool scene)"
  by (auto simp: poolsLabelled_def scene_defs poolEntries_upd poolEntries_empty)

lemma scene_before:
  "\<exists>s5. beforeMemorize sceneEnv sceneSched scene = Inr s5
     \<and> poolEntries (activePool s5) = {(0, 3), (0, 1)}
     \<and> components (wld s5) = components sceneWorld"
  by (auto simp: tick_defs scene_defs poolEntries_upd poolEntries_empty)

lemma bare_before:
  "\<exists>s5. beforeMemorize sceneEnv sceneSched bareScene = Inr s5
     \<and> poolEntries (activePool s5) = {(0, 3), (0, 1)}
     \<and> components (wld s5) 1 = Map.empty"
  by (auto simp: tick_defs scene_defs bareScene_def poolEntries_upd poolEntries_empty)

lemma scene_completes: "\<exists>s'. doPhysicalUpdate sceneEnv sceneSched scene = Inr s'"
  by (simp add: tick_defs scene_defs)

lemma scene_tick:
  assumes "doPhysicalUpdate sceneEnv sceneSched scene = Inr s'"
  shows "poolEntries (activePool s') = {(0, 3), (0, 1)}"
    and "trace s' = [EvAddObj 3 True, EvExecute 10, EvExecute 30, EvOnStep 2, EvDoFrameStep 2,
          EvOnStep 3, EvDoFrameStep 3, EvOnStep 1, EvDoFrameStep 1, EvFlushInputBuffer,
          EvRemoveObj 2 True, EvMemXY 3, EvMemXY 1]"
    and "tfs (wld s') 1 = \<lparr>prevX = 0x3F800000, prevY = 0x40000000, X = 0x3F800000, Y = 0x40000000\<rparr>"
    and "inputBuffer (wld s') KeyHold = {87}"
    and "map (spriteFrame (wld s')) [1, 2, 3] = [1, 1, 1]"
  using assms
  by (auto simp: tick_defs scene_defs poolEntries_upd poolEntries_empty MemXY_def NewTransform2D_def)


lemma scene_registry: "systemPriorityList scene = registryOf sceneEnv [30, 10, 20]"
  by (simp add: registryOf_def scene_defs)

lemma scene_after_register:
  "poolEntries (poolAfterRegister sceneEnv scene) = {(0, 2), (0, 3), (0, 1)}"
  by (auto simp: poolAfterRegister_def tick_defs scene_defs poolEntries_upd poolEntries_empty)

lemma scene_sizes: "activeSize scene = 2"
  by (simp add: activeSize_def scene_def poolEntries_upd poolEntries_empty)

lemmas race_defs = raceEnv_def raceScene_def tornSched_def lateSched_def
      physicsExecute_def taskStores_def Execute_def runQueued_def idlePhys_def NewExecutor_def
      AsyncExecute_def wrapperOne_def plusOne_def

lemma submitAll_integrated: "integrated (submitAll lv v vis st) = integrated st"
  by (induction lv v vis st rule: submitAll.induct) simp_all

lemma submitAll_count:
  "length (tasks (executor (submitAll lv v vis st))) = length (tasks (executor st)) + length vis"
  by (induction lv v vis st rule: submitAll.induct) (simp_all add: AsyncExecute_def)

lemma submitAll_PerLoop_tasks:
  "tasks (executor (submitAll PerLoop v vis st))
     = tasks (executor st) @ replicate (length vis) (PhysicsTask v)"
  by (induction vis arbitrary: st)
     (auto simp: AsyncExecute_def replicate_append_same simp flip: replicate_app_Cons_same)

lemma submitAll_PerLoop_cell:
  "vis \<noteq> [] \<Longrightarrow> cells (submitAll PerLoop v vis st) v = snd (last vis)"
proof (induction vis arbitrary: st)
  case Nil
  then show ?case by simp
next
  case (Cons a vis)
  obtain ob item where a: "a = (ob, item)" by (cases a)
  show ?case
  proof (cases "vis = []")
    case True
    with a show ?thesis by simp
  next
    case False
    with Cons.IH a show ?thesis by simp
  qed
qed

lemma fold_runTask:
  "integrated (fold runTask ts st)
     = integrated st @ map (\<lambda>t. case t of PhysicsTask u \<Rightarrow> cells st u) ts
   \<and> cells (fold runTask ts st) = cells st"
proof (induction ts arbitrary: st)
  case Nil
  then show ?case by simp
next
  case (Cons t ts)
  obtain u where "t = PhysicsTask u" by (cases t)
  with Cons.IH[of "runTask t st"] show ?case by simp
qed

lemma Execute_submits:
  "length (tasks (executor (Execute lv vis st))) = length (tasks (executor st)) + length vis
   \<and> integrated (Execute lv vis st) = integrated st"
  by (simp add: Execute_def submitAll_count submitAll_integrated)

lemma Execute_PerLoop_runs_last:
  assumes "tasks (executor st) = []" "vis \<noteq> []"
  shows "integrated (runQueued (Execute PerLoop vis st))
           = integrated st @ replicate (length vis) (snd (last vis))"
proof -
  let ?st1 = "Execute PerLoop vis st"
  have ts: "tasks (executor ?st1) = replicate (length vis) (PhysicsTask (nextVar st))"
    using assms(1) by (simp add: Execute_def submitAll_PerLoop_tasks)
  have c: "cells ?st1 (nextVar st) = snd (last vis)"
    using assms(2) by (simp add: Execute_def submitAll_PerLoop_cell)
  have i: "integrated ?st1 = integrated st"
    by (simp add: Execute_def submitAll_integrated)
  show ?thesis
    unfolding runQueued_def using fold_runTask[of "tasks (executor ?st1)"
        "?st1\<lparr>executor := (executor ?st1)\<lparr>tasks := []\<rparr>\<rparr>"]
    by (simp add: ts c i map_replicate_const)
qed

lemma submitAll_PerIteration:
  "tasks (executor (submitAll PerIteration v vis st))
     = tasks (executor st) @ map PhysicsTask [nextVar st ..< nextVar st + length vis]
   \<and> map (cells (submitAll PerIteration v vis st)) [nextVar st ..< nextVar st + length vis]
       = map snd vis
   \<and> (\<forall>u < nextVar st. cells (submitAll PerIteration v vis st) u = cells st u)"
proof (induction vis arbitrary: st)
  case Nil
  then show ?case by simp
next
  case (Cons a vis)
  obtain ob item where a: "a = (ob, item)" by (cases a)
  define st1 where "st1 = st\<lparr>cells := (cells st)(nextVar st := item),
           nextVar := Suc (nextVar st),
           executor := AsyncExecute (PhysicsTask (nextVar st)) (executor st)\<rparr>"
  have step: "submitAll PerIteration v (a # vis) st = submitAll PerIteration v vis st1"
    by (simp add: a st1_def)
  have n1: "nextVar st1 = Suc (nextVar st)" by (simp add: st1_def)
  from Cons.IH[of st1] have
    t: "tasks (executor (submitAll PerIteration v vis st1))
          = tasks (executor st1) @ map PhysicsTask [nextVar st1 ..< nextVar st1 + length vis]"
    and c: "map (cells (submitAll PerIteration v vis st1)) [nextVar st1 ..< nextVar st1 + length vis]
          = map snd vis"
    and o: "\<forall>u < nextVar st1. cells (submitAll PerIteration v vis st1) u = cells st1 u"
    by blast+
  have range: "[nextVar st ..< nextVar st + length (a # vis)]
                 = nextVar st # [nextVar st1 ..< nextVar st1 + length vis]"
    using upt_conv_Cons[of "nextVar st" "nextVar st + length (a # vis)"] by (simp add: n1)
  have head: "cells (submitAll PerIteration v vis st1) (nextVar st) = item"
    using o by (simp add: n1 st1_def)
  have 1: "tasks (executor (submitAll PerIteration v (a # vis) st))
     = tasks (executor st) @ map PhysicsTask [nextVar st ..< nextVar st + length (a # vis)]"
    unfolding step t range by (simp add: st1_def AsyncExecute_def)
  have 2: "map (cells (submitAll PerIteration v (a # vis) st)) [nextVar st ..< nextVar st + length (a # vis)]
       = map snd (a # vis)"
    unfolding step range using c head by (simp add: a)
  have 3: "\<forall>u < nextVar st. cells (submitAll PerIteration v (a # vis) st) u = cells st u"
    unfolding step using o by (simp add: n1 st1_def)
  from 1 2 3 show ?case by blast
qed

lemma Execute_PerIteration_runs_each:
  assumes "tasks (executor st) = []"
  shows "integrated (runQueued (Execute PerIteration vis st)) = integrated st @ map snd vis"
proof -
  let ?st0 = "st\<lparr>nextVar := Suc (nextVar st)\<rparr>"
  let ?st1 = "Execute PerIteration vis st"
  have e: "?st1 = submitAll PerIteration (nextVar st) vis ?st0" by (simp add: Execute_def)
  from submitAll_PerIteration[of "nextVar st" vis ?st0] have
    ts: "tasks (executor ?st1) = map PhysicsTask [Suc (nextVar st) ..< Suc (nextVar st) + length vis]"
    and c: "map (cells ?st1) [Suc (nextVar st) ..< Suc (nextVar st) + length vis] = map snd vis"
    unfolding e using assms by simp_all
  have i: "integrated ?st1 = integrated st"
    by (simp add: Execute_def submitAll_integrated)
  show ?thesis
    unfolding runQueued_def using fold_runTask[of "tasks (executor ?st1)"
        "?st1\<lparr>executor := (executor ?st1)\<lparr>tasks := []\<rparr>\<rparr>"] c
    by (simp add: ts i comp_def)
qed

lemmas life_defs = Start_def startBoot_def startMark_def startRender_def executorRun_def
  wgDone_def call_def Kill_def workLoopExit_def Run_def NewExecutor_def newChan_def Let_def
  someLife_def someApp_def renderingLife_def

subsection \<open>The claims\<close>

text \<open>
  Claim C1 does not hold of the code.  Step 2 only queues a system's work:
  \<^verbatim>\<open>Physics2DSystem.Execute\<close> submits one task per object and returns, the tick never
  waits for the executor, and \<^verbatim>\<open>MemXY\<close> takes no lock.  In the physics scene object 1
  rests at (0, 0) and its queued task adds 1.0 to \<^verbatim>\<open>X\<close> and then to \<^verbatim>\<open>Y\<close>.  When the
  worker stores \<^verbatim>\<open>X\<close> before step 6 and \<^verbatim>\<open>Y\<close> after the object's \<^verbatim>\<open>MemXY\<close>, the tick
  completes with the previous position (1, 0), a half-moved position, and the current
  position (1, 1).  When the worker makes both stores after \<^verbatim>\<open>MemXY\<close>, the tick completes
  with the previous position (0, 0) and the current position (1, 1).  In both runs the
  loops range over the whole pool, and \<^verbatim>\<open>MemXY\<close> is called once, after the system's
  \<^verbatim>\<open>Execute\<close> and the step callback.
\<close>

theorem tick_memorize_races_with_workers:
  "(\<exists>s'. doPhysicalUpdate raceEnv tornSched raceScene = Inr s'
      \<and> rangeOf (poolAfterRegister raceEnv raceScene) (stepOrder tornSched)
      \<and> rangeOf (activePool s') (memOrder tornSched)
      \<and> activeObjs s' = {1}
      \<and> components (wld s') 1 NameTransform2D = Some (Transform2DPtr 1)
      \<and> trace s' = [EvExecute 10, EvOnStep 1, EvDoFrameStep 1, EvFlushInputBuffer, EvMemXY 1]
      \<and> tfs (wld s') 1 = \<lparr>prevX = 0x3F800000, prevY = 0, X = 0x3F800000, Y = 0x3F800000\<rparr>
      \<and> prevY (tfs (wld s') 1) \<noteq> Y (tfs (wld s') 1))
   \<and> (\<exists>s'. doPhysicalUpdate raceEnv lateSched raceScene = Inr s'
      \<and> rangeOf (activePool s') (memOrder lateSched)
      \<and> activeObjs s' = {1}
      \<and> tfs (wld s') 1 = \<lparr>prevX = 0, prevY = 0, X = 0x3F800000, Y = 0x3F800000\<rparr>
      \<and> prevX (tfs (wld s') 1) \<noteq> X (tfs (wld s') 1))
   \<and> tfs (wld raceScene) 1 = \<lparr>prevX = 0, prevY = 0, X = 0, Y = 0\<rparr>
   \<and> pending (worldAtStep5 raceEnv tornSched raceScene)
        = [StoreX 1 plusOne, StoreY 1 plusOne]"
proof (intro conjI)
  show "\<exists>s'. doPhysicalUpdate raceEnv tornSched raceScene = Inr s'
      \<and> rangeOf (poolAfterRegister raceEnv raceScene) (stepOrder tornSched)
      \<and> rangeOf (activePool s') (memOrder tornSched)
      \<and> activeObjs s' = {1}
      \<and> components (wld s') 1 NameTransform2D = Some (Transform2DPtr 1)
      \<and> trace s' = [EvExecute 10, EvOnStep 1, EvDoFrameStep 1, EvFlushInputBuffer, EvMemXY 1]
      \<and> tfs (wld s') 1 = \<lparr>prevX = 0x3F800000, prevY = 0, X = 0x3F800000, Y = 0x3F800000\<rparr>
      \<and> prevY (tfs (wld s') 1) \<noteq> Y (tfs (wld s') 1)"
    by (simp add: tick_defs scene_defs race_defs rangeOf_def activeObjs_def poolAfterRegister_def
        poolEntries_upd poolEntries_empty MemXY_def NewTransform2D_def)
  show "\<exists>s'. doPhysicalUpdate raceEnv lateSched raceScene = Inr s'
      \<and> rangeOf (activePool s') (memOrder lateSched)
      \<and> activeObjs s' = {1}
      \<and> tfs (wld s') 1 = \<lparr>prevX = 0, prevY = 0, X = 0x3F800000, Y = 0x3F800000\<rparr>
      \<and> prevX (tfs (wld s') 1) \<noteq> X (tfs (wld s') 1)"
    by (simp add: tick_defs scene_defs race_defs rangeOf_def activeObjs_def
        poolEntries_upd poolEntries_empty MemXY_def NewTransform2D_def)
  show "tfs (wld raceScene) 1 = \<lparr>prevX = 0, prevY = 0, X = 0, Y = 0\<rparr>"
    by (simp add: raceScene_def sceneWorld_def NewTransform2D_def)
  show "pending (worldAtStep5 raceEnv tornSched raceScene) = [StoreX 1 plusOne, StoreY 1 plusOne]"
    by (simp add: worldAtStep5_def tick_defs scene_defs raceEnv_def raceScene_def tornSched_def
        physicsExecute_def taskStores_def Execute_def runQueued_def idlePhys_def NewExecutor_def
        AsyncExecute_def wrapperOne_def stepsEffect_def)
qed



text \<open>
  Claim C3 as stated fails: a register request whose flag is false is drained, and the
  object goes to the inactive pool.  Here the active pool has no entry before and none
  after the tick, one register request and no unregister request are drained, and
  0 is not 0 + 1 - 0.
\<close>

theorem pool_size_by_request_count_fails:
  "map_sum id activeSize (doPhysicalUpdate sceneEnv emptySched flagFalseScene) = Inr 0
   \<and> activeSize flagFalseScene = 0
   \<and> length (registersDrained flagFalseScene) = 1
   \<and> length (unregistersDrained sceneEnv emptySched flagFalseScene) = 0
   \<and> int 0 \<noteq> int (activeSize flagFalseScene)
               + int (length (registersDrained flagFalseScene))
               - int (length (unregistersDrained sceneEnv emptySched flagFalseScene))"
  by (simp add: tick_defs scene_defs flagFalseScene_def emptySched_def activeSize_def
      registersDrained_def unregistersDrained_def worldAtStep5_def poolEntries_empty)

text \<open>
  Claim C3, amended.  When a tick completes, the active pool has as many entries as
  before, plus the entries that the drained register requests with a true flag add and
  that were not there before, minus the entries that the drained unregister requests
  remove: those of objects whose \<^verbatim>\<open>IsActive\<close> is true and that are in the pool after
  step 1.  A request with a false flag, a repeated request and a request for an entry
  that is already there or not there change nothing.  The step callbacks of the tick are
  those of the pool's objects as step 1 left it, each object once and none left out.
\<close>

theorem tick_pool_size:
  assumes tick: "doPhysicalUpdate E sch s = Inr s'"
    and lab: "poolsLabelled E (activePool s)"
    and rng: "rangeOf (poolAfterRegister E s) (stepOrder sch)"
  shows "int (activeSize s') =
           int (activeSize s)
           + int (card (activeAdds E (registersDrained s) - poolEntries (activePool s)))
           - int (card (activeRemoves E (worldAtStep5 E sch s) (unregistersDrained E sch s)
                        \<inter> poolEntries (poolAfterRegister E s)))
         \<and> filter isOnStep (tickEvents s s') = map EvOnStep (map snd (stepOrder sch))
         \<and> distinct (map snd (stepOrder sch))
         \<and> set (map snd (stepOrder sch)) = snd ` poolEntries (poolAfterRegister E s)"
proof -
  have e1: "poolEntries (poolAfterRegister E s) = poolEntries (activePool s) \<union> activeAdds E (registersDrained s)"
    and e2: "poolEntries (activePool s') =
         poolEntries (poolAfterRegister E s)
           - activeRemoves E (worldAtStep5 E sch s) (unregistersDrained E sch s)"
    using tick_entries[OF tick] by simp_all
  have "finite (poolEntries (poolAfterRegister E s))"
    using rng by (metis rangeOf_def List.finite_set)
  then have fP: "finite (poolEntries (activePool s))" and fA: "finite (activeAdds E (registersDrained s))"
    unfolding e1 by simp_all
  have size: "int (activeSize s') =
           int (activeSize s)
           + int (card (activeAdds E (registersDrained s) - poolEntries (activePool s)))
           - int (card (activeRemoves E (worldAtStep5 E sch s) (unregistersDrained E sch s)
                        \<inter> poolEntries (poolAfterRegister E s)))"
    unfolding activeSize_def e2 unfolding e1 by (rule card_pool_change[OF fP fA])
  from tick_trace[OF tick] obtain acts where
    "trace s' = trace s
         @ map2 EvAddObj (map payload (registersDrained s)) acts
         @ map EvExecute (executedSystems E (systemPriorityList s) ((wld s)\<lparr>registerChannel := []\<rparr>))
         @ stepEvents (stepOrder sch)
         @ [EvFlushInputBuffer]
         @ map (\<lambda>r. EvRemoveObj (payload r) (IsActive (worldAtStep5 E sch s) (payload r)))
             (unregistersDrained E sch s)
         @ memEvents (memOrder sch)" by blast
  from tickEvents_append[OF this]
  have steps: "filter isOnStep (tickEvents s s') = map EvOnStep (map snd (stepOrder sch))"
    by (simp add: filter_isOnStep)
  have dist: "distinct (map snd (stepOrder sch))"
    using poolsLabelled_distinct[OF tick_labelled(1)[OF tick lab] rng] .
  have all: "set (map snd (stepOrder sch)) = snd ` poolEntries (poolAfterRegister E s)"
    using rng by (simp add: rangeOf_def)
  from size steps dist all show ?thesis by blast
qed

text \<open>
  In the scene object 3 is registered and object 2 unregistered: two entries before,
  two after.
\<close>

theorem tick_pool_size_witness:
  "\<exists>s'. doPhysicalUpdate sceneEnv sceneSched scene = Inr s'
     \<and> poolsLabelled sceneEnv (activePool scene)
     \<and> rangeOf (poolAfterRegister sceneEnv scene) (stepOrder sceneSched)
     \<and> activeSize scene = 2 \<and> activeSize s' = 2
     \<and> int (activeSize s') =
           int (activeSize scene)
           + int (card (activeAdds sceneEnv (registersDrained scene) - poolEntries (activePool scene)))
           - int (card (activeRemoves sceneEnv (worldAtStep5 sceneEnv sceneSched scene)
                          (unregistersDrained sceneEnv sceneSched scene)
                        \<inter> poolEntries (poolAfterRegister sceneEnv scene)))
     \<and> filter isOnStep (tickEvents scene s') = map EvOnStep (map snd (stepOrder sceneSched))
     \<and> distinct (map snd (stepOrder sceneSched))
     \<and> set (map snd (stepOrder sceneSched)) = snd ` poolEntries (poolAfterRegister sceneEnv scene)"
proof -
  from scene_completes obtain s' where
    t: "doPhysicalUpdate sceneEnv sceneSched scene = Inr s'" ..
  note p = scene_tick(1)[OF t]
  have r: "rangeOf (poolAfterRegister sceneEnv scene) (stepOrder sceneSched)"
    by (simp add: rangeOf_def scene_after_register sceneSched_def)
  have z: "activeSize s' = 2" by (simp add: activeSize_def p)
  from tick_pool_size[OF t scene_labelled r] t r scene_labelled z scene_sizes show ?thesis by blast
qed

text \<open>
  Claim C4.  Let \<^verbatim>\<open>systemPriorityList\<close> be what registering the systems \<open>regs\<close> one after
  the other builds.  The systems a completed tick executes are the systems of the list
  that are enabled when their turn comes, in the order of the list, each at most once;
  a system found disabled is skipped, and step 2 itself cannot fail.  The order of
  execution is ascending in priority, and strictly ascending where no two registered
  systems have the same priority.  Where no \<^verbatim>\<open>Execute\<close> changes an enabled flag, the
  systems executed are exactly those enabled when the tick starts: a system disabled
  before the tick is not executed in it.  The world after step 4 is the one these
  \<^verbatim>\<open>Execute\<close> calls, then the step callbacks, then the flush produce.
\<close>

theorem tick_systems_in_list_order:
  assumes tick: "doPhysicalUpdate E sch s = Inr s'"
    and reg: "systemPriorityList s = registryOf E regs"
  shows "\<exists>exe. filter isExecute (tickEvents s s') = map EvExecute exe
           \<and> exe = enabledAtTurn E (systemPriorityList s) ((wld s)\<lparr>registerChannel := []\<rparr>)
           \<and> subseq exe (systemPriorityList s)
           \<and> sorted_wrt (prioLeq E) exe
           \<and> (distinct (map (sysPriority E) regs) \<longrightarrow> sorted_wrt (prioLess E) exe)
           \<and> (flagsKept E \<longrightarrow> exe = filter (sysEnabled (wld s)) (systemPriorityList s))
           \<and> worldAtStep5 E sch s =
                FlushInputBuffer (stepsEffect E (stepOrder sch)
                  (systemsEffect E (systemPriorityList s) ((wld s)\<lparr>registerChannel := []\<rparr>)))"
proof -
  define exe where "exe = executedSystems E (systemPriorityList s) ((wld s)\<lparr>registerChannel := []\<rparr>)"
  from tick_trace[OF tick] obtain acts where
    "trace s' = trace s
         @ map2 EvAddObj (map payload (registersDrained s)) acts
         @ map EvExecute exe
         @ stepEvents (stepOrder sch)
         @ [EvFlushInputBuffer]
         @ map (\<lambda>r. EvRemoveObj (payload r) (IsActive (worldAtStep5 E sch s) (payload r)))
             (unregistersDrained E sch s)
         @ memEvents (memOrder sch)" unfolding exe_def by blast
  from tickEvents_append[OF this]
  have 1: "filter isExecute (tickEvents s s') = map EvExecute exe"
    by (simp add: filter_isExecute)
  have 2: "exe = enabledAtTurn E (systemPriorityList s) ((wld s)\<lparr>registerChannel := []\<rparr>)"
    unfolding exe_def by (rule executedSystems_turns)
  have 3: "subseq exe (systemPriorityList s)"
    unfolding exe_def by (rule executedSystems_subseq)
  have 4: "sorted_wrt (prioLeq E) exe"
    using subseq_sorted_wrt[OF 3] registryOf_sorted[of E regs] by (simp add: reg)
  have 5: "distinct (map (sysPriority E) regs) \<longrightarrow> sorted_wrt (prioLess E) exe"
    using subseq_sorted_wrt[OF 3] registryOf_strict[of E regs] by (simp add: reg)
  have 6: "flagsKept E \<longrightarrow> exe = filter (sysEnabled (wld s)) (systemPriorityList s)"
    unfolding exe_def by (simp add: executedSystems_filter)
  note 7 = tick_world(1)[OF tick]
  show ?thesis
    by (intro exI[of _ exe] conjI) (rule 1 2 3 4 5 6 7)+
qed

text \<open>
  In the scene the systems 30, 10, 20 are registered in this order, which gives the list
  10, 20, 30; system 20 is disabled, and the tick executes 10, then 30.
\<close>

theorem tick_systems_in_list_order_witness:
  "\<exists>s'. doPhysicalUpdate sceneEnv sceneSched scene = Inr s'
     \<and> systemPriorityList scene = registryOf sceneEnv [30, 10, 20]
     \<and> systemPriorityList scene = [10, 20, 30]
     \<and> distinct (map (sysPriority sceneEnv) [30, 10, 20])
     \<and> flagsKept sceneEnv
     \<and> filter isExecute (tickEvents scene s') = [EvExecute 10, EvExecute 30]
     \<and> (\<exists>exe. filter isExecute (tickEvents scene s') = map EvExecute exe
           \<and> sorted_wrt (prioLeq sceneEnv) exe \<and> sorted_wrt (prioLess sceneEnv) exe)"
proof -
  from scene_completes obtain s' where
    t: "doPhysicalUpdate sceneEnv sceneSched scene = Inr s'" ..
  have l: "systemPriorityList scene = [10, 20, 30]" by (simp add: scene_defs)
  have d: "distinct (map (sysPriority sceneEnv) [30, 10, 20])" by (simp add: sceneEnv_def)
  have fk: "flagsKept sceneEnv" by (simp add: flagsKept_def sceneEnv_def)
  from tick_systems_in_list_order[OF t scene_registry] obtain exe where
    e1: "filter isExecute (tickEvents scene s') = map EvExecute exe"
    and e2: "sorted_wrt (prioLeq sceneEnv) exe"
    and e3: "distinct (map (sysPriority sceneEnv) [30, 10, 20]) \<longrightarrow> sorted_wrt (prioLess sceneEnv) exe"
    and e4: "flagsKept sceneEnv \<longrightarrow> exe = filter (sysEnabled (wld scene)) (systemPriorityList scene)"
    by blast
  from e4 fk have "exe = [10, 30]" by (simp add: scene_defs)
  with e1 have ex: "filter isExecute (tickEvents scene s') = [EvExecute 10, EvExecute 30]" by simp
  from e1 e2 e3 d have
    "\<exists>exe. filter isExecute (tickEvents scene s') = map EvExecute exe
           \<and> sorted_wrt (prioLeq sceneEnv) exe \<and> sorted_wrt (prioLess sceneEnv) exe" by blast
  with t scene_registry l d fk ex show ?thesis by blast
qed

text \<open>
  Claim C5.  A render tick applies the render callbacks of exactly the objects of the
  active pool, each once, in descending order of depth: the world it leaves is the
  callbacks applied in the order of the sorted draw list, which it keeps in
  \<^verbatim>\<open>renderSortList\<close>, and the pool is unchanged.  Objects with the depths 3, 1, 2 are drawn
  in the order 3, 2, 1.  \<open>vis\<close> is the order in which the loop ranges over the pool, and
  \<^verbatim>\<open>sort.Slice\<close> keeps its promise on the list built.
\<close>

theorem doRender_descending_depth:
  assumes ok: "sortSliceOk (zLess (wld s)) (map snd vis) (sortSlice E (zLess (wld s)) (map snd vis))"
    and rng: "rangeOf (activePool s) vis"
  shows "\<exists>drawn. trace (doRender E vis s) = trace s @ map EvOnRender drawn
           \<and> wld (doRender E vis s) = fold (OnRender E) drawn (wld s)
           \<and> renderSortList (doRender E vis s) = drawn
           \<and> activePool (doRender E vis s) = activePool s
           \<and> mset drawn = mset (map snd vis)
           \<and> set drawn = activeObjs s
           \<and> sorted_wrt (\<lambda>a b. spriteZ (wld s) b \<le> spriteZ (wld s) a) drawn
           \<and> (mset (map (spriteZ (wld s)) (map snd vis)) = {#3, 1, 2#}
                \<longrightarrow> map (spriteZ (wld s)) drawn = [3, 2, 1])"
proof -
  define drawn where "drawn = sortSlice E (zLess (wld s)) (map snd vis)"
  have t: "trace (doRender E vis s) = trace s @ map EvOnRender drawn"
    by (simp add: doRender_def Let_def renderAll_trace drawn_def)
  have w: "wld (doRender E vis s) = fold (OnRender E) drawn (wld s)"
    by (simp add: doRender_def Let_def renderAll_wld drawn_def)
  have rl: "renderSortList (doRender E vis s) = drawn"
    by (simp add: doRender_def Let_def renderAll_frame drawn_def)
  have ap: "activePool (doRender E vis s) = activePool s"
    by (simp add: doRender_def Let_def renderAll_frame)
  have m: "mset drawn = mset (map snd vis)"
    using ok by (simp add: sortSliceOk_def drawn_def)
  have "set drawn = set (map snd vis)" using m by (rule mset_eq_setD)
  then have st: "set drawn = activeObjs s"
    using rng by (simp add: rangeOf_def activeObjs_def)
  have so: "sorted_wrt (\<lambda>a b. spriteZ (wld s) b \<le> spriteZ (wld s) a) drawn"
    using ok by (simp add: sortSliceOk_def drawn_def zLess_def not_less)
  have ex: "map (spriteZ (wld s)) drawn = [3, 2, 1]"
    if k: "mset (map (spriteZ (wld s)) (map snd vis)) = {#3, 1, 2#}"
  proof (rule descending_unique)
    have "mset (map (spriteZ (wld s)) drawn) = mset (map (spriteZ (wld s)) (map snd vis))"
      by (metis m mset_map)
    then show "mset (map (spriteZ (wld s)) drawn) = {#3, 1, 2#}" using k by simp
    show "sorted_wrt (\<lambda>a b. b \<le> a) (map (spriteZ (wld s)) drawn)"
      using so by (simp add: sorted_wrt_map)
  qed
  show ?thesis
  proof (intro exI[of _ drawn] conjI impI)
    show "trace (doRender E vis s) = trace s @ map EvOnRender drawn" by (rule t)
    show "wld (doRender E vis s) = fold (OnRender E) drawn (wld s)" by (rule w)
    show "renderSortList (doRender E vis s) = drawn" by (rule rl)
    show "activePool (doRender E vis s) = activePool s" by (rule ap)
    show "mset drawn = mset (map snd vis)" by (rule m)
    show "set drawn = activeObjs s" by (rule st)
    show "sorted_wrt (\<lambda>a b. spriteZ (wld s) b \<le> spriteZ (wld s) a) drawn" by (rule so)
    show "map (spriteZ (wld s)) drawn = [3, 2, 1]"
      if "mset (map (spriteZ (wld s)) (map snd vis)) = {#3, 1, 2#}"
      using that by (rule ex)
  qed
qed

text \<open>
  The three objects of the scene, met in the order 1, 2, 3 with depths 3, 1, 2, are drawn
  in the order 1, 3, 2: this is what the screen shows after the tick.
\<close>

theorem doRender_descending_depth_witness:
  "sortSliceOk (zLess (wld sceneOfThree)) (map snd ([(0, 1), (0, 2), (0, 3)] :: (label \<times> obj) list))
     (sortSlice sceneEnv (zLess (wld sceneOfThree)) (map snd ([(0, 1), (0, 2), (0, 3)] :: (label \<times> obj) list)))
   \<and> rangeOf (activePool sceneOfThree) [(0, 1), (0, 2), (0, 3)]
   \<and> map (spriteZ (wld sceneOfThree)) (map snd ([(0, 1), (0, 2), (0, 3)] :: (label \<times> obj) list)) = [3, 1, 2]
   \<and> trace (doRender sceneEnv [(0, 1), (0, 2), (0, 3)] sceneOfThree)
        = [EvOnRender 1, EvOnRender 3, EvOnRender 2]
   \<and> screen (wld sceneOfThree) = []
   \<and> screen (wld (doRender sceneEnv [(0, 1), (0, 2), (0, 3)] sceneOfThree)) = [1, 3, 2]
   \<and> (\<exists>drawn. trace (doRender sceneEnv [(0, 1), (0, 2), (0, 3)] sceneOfThree)
                 = trace sceneOfThree @ map EvOnRender drawn
           \<and> wld (doRender sceneEnv [(0, 1), (0, 2), (0, 3)] sceneOfThree)
                 = fold (OnRender sceneEnv) drawn (wld sceneOfThree)
           \<and> renderSortList (doRender sceneEnv [(0, 1), (0, 2), (0, 3)] sceneOfThree) = drawn
           \<and> map (spriteZ (wld sceneOfThree)) drawn = [3, 2, 1])"
proof -
  let ?vis = "[(0, 1), (0, 2), (0, 3)] :: (label \<times> obj) list"
  have ok: "sortSliceOk (zLess (wld sceneOfThree)) (map snd ?vis)
              (sortSlice sceneEnv (zLess (wld sceneOfThree)) (map snd ?vis))"
    by (simp add: sortSliceOk_def zLess_def sceneOfThree_def scene_defs)
  have rng: "rangeOf (activePool sceneOfThree) ?vis"
    by (auto simp: rangeOf_def sceneOfThree_def poolEntries_upd poolEntries_empty)
  have keys: "map (spriteZ (wld sceneOfThree)) (map snd ?vis) = [3, 1, 2]"
    by (simp add: sceneOfThree_def scene_defs)
  have tr: "trace (doRender sceneEnv ?vis sceneOfThree) = [EvOnRender 1, EvOnRender 3, EvOnRender 2]"
    by (simp add: doRender_def Let_def zLess_def logEv_def sceneOfThree_def scene_defs)
  have s0: "screen (wld sceneOfThree) = []"
    by (simp add: sceneOfThree_def scene_defs)
  have s1: "screen (wld (doRender sceneEnv ?vis sceneOfThree)) = [1, 3, 2]"
    by (simp add: doRender_def Let_def zLess_def logEv_def sceneOfThree_def scene_defs)
  from keys have k: "mset (map (spriteZ (wld sceneOfThree)) (map snd ?vis)) = {#3, 1, 2#}"
    by simp
  from doRender_descending_depth[OF ok rng] obtain drawn where
    d: "trace (doRender sceneEnv ?vis sceneOfThree) = trace sceneOfThree @ map EvOnRender drawn
        \<and> wld (doRender sceneEnv ?vis sceneOfThree) = fold (OnRender sceneEnv) drawn (wld sceneOfThree)
        \<and> renderSortList (doRender sceneEnv ?vis sceneOfThree) = drawn
        \<and> activePool (doRender sceneEnv ?vis sceneOfThree) = activePool sceneOfThree
        \<and> mset drawn = mset (map snd ?vis)
        \<and> set drawn = activeObjs sceneOfThree
        \<and> sorted_wrt (\<lambda>a b. spriteZ (wld sceneOfThree) b \<le> spriteZ (wld sceneOfThree) a) drawn
        \<and> (mset (map (spriteZ (wld sceneOfThree)) (map snd ?vis)) = {#3, 1, 2#}
              \<longrightarrow> map (spriteZ (wld sceneOfThree)) drawn = [3, 2, 1])" ..
  note d1 = d[THEN conjunct1]
  note d2 = d[THEN conjunct2, THEN conjunct1]
  note d3 = d[THEN conjunct2, THEN conjunct2, THEN conjunct1]
  note d[THEN conjunct2, THEN conjunct2, THEN conjunct2, THEN conjunct2, THEN conjunct2,
      THEN conjunct2, THEN conjunct2]
  with k have d8: "map (spriteZ (wld sceneOfThree)) drawn = [3, 2, 1]" by (rule rev_mp)
  show ?thesis
    by (intro conjI exI[of _ drawn]) (rule ok rng keys tr s0 s1 d1 d2 d3 d8)+
qed

text \<open>
  Claim C6.  With one variable for the whole loop (the language versions before Go 1.22),
  \<^verbatim>\<open>Execute\<close> on two entries queues two tasks and runs none, and both tasks name the same
  variable: when the workers run them after the loop, \<^verbatim>\<open>s.execute\<close> is called twice with
  the wrapper of the second entry and never with the first.
\<close>

theorem Execute_tasks_share_loop_variable:
  "rangeOfMap [1 \<mapsto> wrapperA, 2 \<mapsto> wrapperB] twoEntries
   \<and> tasks (executor (Execute PerLoop twoEntries physStart)) = [PhysicsTask 0, PhysicsTask 0]
   \<and> integrated (Execute PerLoop twoEntries physStart) = []
   \<and> integrated (runQueued (Execute PerLoop twoEntries physStart)) = [wrapperB, wrapperB]
   \<and> wrapperA \<noteq> wrapperB"
  by (simp add: rangeOfMap_def Execute_def runQueued_def twoEntries_def physStart_def
      NewExecutor_def AsyncExecute_def wrapperA_def wrapperB_def fun_eq_iff)

text \<open>
  Claim C7.  After \<^verbatim>\<open>NewApplication\<close> has returned an application, every later call
  panics with the message of the singleton guard, as long as the flag in \<^verbatim>\<open>casList\<close> is
  not written in between; \<^verbatim>\<open>Cas_False\<close> and \<^verbatim>\<open>Cas_True\<close> are different values.
\<close>

theorem second_NewApplication_panics:
  assumes first: "NewApplication K cfg p = Inr (a, p1)"
    and neq: "Cas_False K \<noteq> Cas_True K"
    and later: "casList p2 = casList p1"
  shows "NewApplication K cfg2 p2 =
           Inl (Panic ''cannot have two masterGameLoopController in a standalone process'')"
proof -
  from NewApplication_casList[OF first] later have
    "Cas_CoreController K < length (casList p2)"
    "casList p2 ! Cas_CoreController K = Cas_True K" by simp_all
  with neq show ?thesis by (simp add: NewApplication_def)
qed

text \<open>
  After \<^verbatim>\<open>GlobalInitializer\<close> the first construction succeeds, the second panics.
\<close>

theorem second_NewApplication_panics_witness:
  "\<exists>p1. NewApplication someConsts (Some someConfig) (GlobalInitializer someConsts blankProcess)
             = Inr (someApp, p1)
     \<and> Cas_False someConsts \<noteq> Cas_True someConsts
     \<and> NewApplication someConsts (Some someConfig) p1 =
         Inl (Panic ''cannot have two masterGameLoopController in a standalone process'')"
proof -
  have "\<exists>p1. NewApplication someConsts (Some someConfig) (GlobalInitializer someConsts blankProcess)
             = Inr (someApp, p1)"
    by (simp add: NewApplication_def GlobalInitializer_def someConsts_def someConfig_def
        blankProcess_def newTickerFor_def goQuot_def Second_def Let_def someApp_def)
  then obtain p1 where
    f: "NewApplication someConsts (Some someConfig) (GlobalInitializer someConsts blankProcess)
             = Inr (someApp, p1)" by blast
  have n: "Cas_False someConsts \<noteq> Cas_True someConsts" by (simp add: someConsts_def)
  from second_NewApplication_panics[OF f n refl, of "Some someConfig"] f n show ?thesis by blast
qed

text \<open>
  Claim C8.  \<^verbatim>\<open>Start\<close> on an application whose status is running panics; so does a
  second \<^verbatim>\<open>Start\<close> after one that returned.  \<^verbatim>\<open>Kill\<close> on a closed shutdown channel
  panics; so does a \<^verbatim>\<open>Kill\<close> after \<^verbatim>\<open>workLoopExit\<close> has closed it.  Both are panics,
  not error results.
\<close>

theorem Start_twice_Kill_closed_panic:
  "(status (theApp st) = GameLoopStats_Running
      \<longrightarrow> Start st = Inl (Panic ''cannot run a controller twice''))
   \<and> (Start st = Inr st1 \<longrightarrow> Start st1 = Inl (Panic ''cannot run a controller twice''))
   \<and> (chanClosed (sigKill (theApp sk)) \<longrightarrow> Kill sk = Inl (Panic ''send on closed channel''))
   \<and> (workLoopExit sk = Inr sk1 \<longrightarrow> Kill sk1 = Inl (Panic ''send on closed channel''))"
proof -
  have 1: "Start x = Inl (Panic ''cannot run a controller twice'')"
    if "status (theApp x) = GameLoopStats_Running" for x
    using that by (simp add: Start_def)
  have 2: "status (theApp st1) = GameLoopStats_Running" if "Start st = Inr st1"
  proof -
    from that obtain sb where "startBoot st = Inr sb" "startRender (startMark sb) = Inr st1"
      by (auto simp: Start_def split: if_splits sum.splits)
    from startRender_facts(2)[OF this(2)] show ?thesis by (simp add: startMark_def)
  qed
  have 3: "Kill x = Inl (Panic ''send on closed channel'')"
    if "chanClosed (sigKill (theApp x))" for x
    using that by (simp add: Kill_def Let_def call_frame)
  have 4: "chanClosed (sigKill (theApp sk1))" if "workLoopExit sk = Inr sk1"
    using that
    by (auto simp: workLoopExit_def wgDone_def Let_def call_frame split: if_splits)
  from 1 2 3 4 show ?thesis by blast
qed

text \<open>
  A start and a second start; a kill during the render loop, the worker's exit, and a
  second kill.
\<close>

theorem Start_twice_Kill_closed_panic_witness:
  "\<exists>st1 k1 k2. Start someLife = Inr st1
     \<and> Start st1 = Inl (Panic ''cannot run a controller twice'')
     \<and> Kill renderingLife = Inr k1
     \<and> workLoopExit k1 = Inr k2
     \<and> Kill k2 = Inl (Panic ''send on closed channel'')"
proof -
  have "\<exists>st1. Start someLife = Inr st1" by (simp add: life_defs)
  then obtain st1 where s: "Start someLife = Inr st1" by blast
  have "\<exists>k1 k2. Kill renderingLife = Inr k1 \<and> workLoopExit k1 = Inr k2" by (simp add: life_defs)
  then obtain k1 k2 where k: "Kill renderingLife = Inr k1" and w: "workLoopExit k1 = Inr k2" by blast
  from Start_twice_Kill_closed_panic[of someLife st1 k1 k2] s k w show ?thesis by blast
qed

text \<open>
  Claim C9.  Let steps 1 to 5 of a tick complete.  If an object of the active pool holds
  no \<^verbatim>\<open>*Transform2D\<close> under the name \<^verbatim>\<open>Transform2D\<close>, the tick panics in the type
  assertion of step 6; if every object of the active pool holds one, the tick completes.
\<close>

theorem tick_needs_Transform2D:
  assumes b: "beforeMemorize E sch s = Inr s5"
    and rng: "rangeOf (activePool s5) (memOrder sch)"
  shows "((\<exists>ob \<in> activeObjs s5. \<not> hasTransform2D (wld s5) ob)
            \<longrightarrow> doPhysicalUpdate E sch s = Inl interfaceConversion)
       \<and> ((\<forall>ob \<in> activeObjs s5. hasTransform2D (wld s5) ob)
            \<longrightarrow> (\<exists>s'. doPhysicalUpdate E sch s = Inr s'))"
proof -
  let ?s6 = "workersRun (storesBeforeMem sch) s5"
  have tick: "doPhysicalUpdate E sch s = memorize (memOrder sch) (storesDuringMem sch) ?s6"
    using b by (simp add: doPhysicalUpdate_def)
  have comp: "components (wld ?s6) = components (wld s5)"
    by (simp add: workersRun_frame workers_frame)
  have vis: "set (memOrder sch) = poolEntries (activePool s5)"
    using rng by (simp add: rangeOf_def)
  have 1: "doPhysicalUpdate E sch s = Inl interfaceConversion"
    if "\<exists>ob \<in> activeObjs s5. \<not> hasTransform2D (wld s5) ob"
  proof -
    from that obtain l ob where "(l, ob) \<in> set (memOrder sch)" "\<not> hasTransform2D (wld s5) ob"
      unfolding activeObjs_def vis by auto
    then have "(l, ob) \<in> set (memOrder sch)" "\<not> hasTransform2D (wld ?s6) ob"
      using hasTransform2D_cong[OF comp] by simp_all
    from memorize_panic[OF this] tick show ?thesis by simp
  qed
  have 2: "\<exists>s'. doPhysicalUpdate E sch s = Inr s'"
    if "\<forall>ob \<in> activeObjs s5. hasTransform2D (wld s5) ob"
  proof -
    from that have "\<forall>(l, ob) \<in> set (memOrder sch). hasTransform2D (wld s5) ob"
      unfolding activeObjs_def vis by force
    then have "\<forall>(l, ob) \<in> set (memOrder sch). hasTransform2D (wld ?s6) ob"
      using hasTransform2D_cong[OF comp] by simp
    from memorize_ok[OF this] tick show ?thesis by simp
  qed
  from 1 2 show ?thesis by blast
qed

text \<open>
  With object 1 stripped of its components the tick panics; in the scene it completes.
\<close>

theorem tick_needs_Transform2D_witness:
  "doPhysicalUpdate sceneEnv sceneSched bareScene = Inl interfaceConversion
   \<and> (\<exists>s'. doPhysicalUpdate sceneEnv sceneSched scene = Inr s')"
proof -
  from bare_before obtain b5 where
    b: "beforeMemorize sceneEnv sceneSched bareScene = Inr b5"
    and bp: "poolEntries (activePool b5) = {(0, 3), (0, 1)}"
    and bc: "components (wld b5) 1 = Map.empty" by blast
  have br: "rangeOf (activePool b5) (memOrder sceneSched)"
    by (simp add: rangeOf_def bp sceneSched_def)
  have "\<exists>ob \<in> activeObjs b5. \<not> hasTransform2D (wld b5) ob"
    using bc by (simp add: activeObjs_def bp hasTransform2D_def)
  with tick_needs_Transform2D[OF b br] have 1: "doPhysicalUpdate sceneEnv sceneSched bareScene = Inl interfaceConversion"
    by blast
  from scene_before obtain s5 where
    s: "beforeMemorize sceneEnv sceneSched scene = Inr s5"
    and sp: "poolEntries (activePool s5) = {(0, 3), (0, 1)}"
    and sc: "components (wld s5) = components sceneWorld" by blast
  have sr: "rangeOf (activePool s5) (memOrder sceneSched)"
    by (simp add: rangeOf_def sp sceneSched_def)
  have "\<forall>ob \<in> activeObjs s5. hasTransform2D (wld s5) ob"
    by (simp add: activeObjs_def sp hasTransform2D_def sc sceneWorld_def)
  with tick_needs_Transform2D[OF s sr] have 2: "\<exists>s'. doPhysicalUpdate sceneEnv sceneSched scene = Inr s'"
    by blast
  from 1 2 show ?thesis by blast
qed

text \<open>
  Claim C10.  A \<^verbatim>\<open>Start\<close> that returns has called \<^verbatim>\<open>executor.Run()\<close> exactly twice: once
  before the \<^verbatim>\<open>go\<close> statement that spawns the worker loop, and once after the
  application was marked running, before the render loop.  The executor has run its
  start-up twice.
\<close>

theorem Start_runs_executor_twice:
  assumes "Start st = Inr st'"
  shows "\<exists>f st1. startBoot st = Inr st1
           \<and> calls st1 = calls st @ [EvInitOpenGL, EvInitFunc f, EvExecutorRun, EvGoRunWorkerLoop]
           \<and> status (theApp (startMark st1)) = GameLoopStats_Running
           \<and> startRender (startMark st1) = Inr st'
           \<and> calls st' = calls st1 @ [EvExecutorRun, EvWgAdd, EvRenderLoop, EvWgDone]
           \<and> count_list (drop (length (calls st)) (calls st')) EvExecutorRun = 2
           \<and> appExecutor (theApp st') = Run (Run (appExecutor (theApp st)))"
proof -
  from assms obtain st1 where b: "startBoot st = Inr st1" and r: "startRender (startMark st1) = Inr st'"
    by (auto simp: Start_def split: if_splits sum.splits)
  from startBoot_facts(1)[OF b] obtain f where
    c1: "calls st1 = calls st @ [EvInitOpenGL, EvInitFunc f, EvExecutorRun, EvGoRunWorkerLoop]"
    by blast
  have c2: "calls st' = calls st1 @ [EvExecutorRun, EvWgAdd, EvRenderLoop, EvWgDone]"
    using startRender_facts(1)[OF r] by (simp add: startMark_def)
  have m: "status (theApp (startMark st1)) = GameLoopStats_Running"
    by (simp add: startMark_def)
  have n: "count_list (drop (length (calls st)) (calls st')) EvExecutorRun = 2"
    by (simp add: c1 c2)
  have e: "appExecutor (theApp st') = Run (Run (appExecutor (theApp st)))"
    using startRender_facts(3)[OF r] startBoot_facts(2)[OF b] by (simp add: startMark_def)
  from b c1 m r c2 n e show ?thesis by blast
qed

text \<open>
  The calls of a start, and an executor of one worker left with two worker loops.
\<close>

theorem Start_runs_executor_twice_witness:
  "\<exists>st'. Start someLife = Inr st'
     \<and> calls st' = [EvInitOpenGL, EvInitFunc 0, EvExecutorRun, EvGoRunWorkerLoop,
                    EvExecutorRun, EvWgAdd, EvRenderLoop, EvWgDone]
     \<and> count_list (drop (length (calls someLife)) (calls st')) EvExecutorRun = 2
     \<and> workerLoops (appExecutor (theApp st')) = 2"
proof -
  have "\<exists>st'. Start someLife = Inr st'" by (simp add: life_defs)
  then obtain st' where s: "Start someLife = Inr st'" by blast
  from Start_runs_executor_twice[OF s] obtain f st1 where
    c1: "calls st1 = calls someLife @ [EvInitOpenGL, EvInitFunc f, EvExecutorRun, EvGoRunWorkerLoop]"
    and b: "startBoot someLife = Inr st1"
    and c2: "calls st' = calls st1 @ [EvExecutorRun, EvWgAdd, EvRenderLoop, EvWgDone]"
    and n: "count_list (drop (length (calls someLife)) (calls st')) EvExecutorRun = 2"
    and e: "appExecutor (theApp st') = Run (Run (appExecutor (theApp someLife)))"
    by blast
  from b c1 have "f = 0" by (auto simp: life_defs)
  with c1 c2 have "calls st' = [EvInitOpenGL, EvInitFunc 0, EvExecutorRun, EvGoRunWorkerLoop,
                    EvExecutorRun, EvWgAdd, EvRenderLoop, EvWgDone]"
    by (simp add: someLife_def)
  moreover from e have "workerLoops (appExecutor (theApp st')) = 2"
    by (simp add: Run_def someLife_def someApp_def NewExecutor_def)
  ultimately show ?thesis using s n by blast
qed

end
